theory Spec2Isabelle
  imports Complex_Main "HOL-Library.Word"
begin

section \<open>Images\<close>

text \<open>
  An 8-bit channel (\<open>uchar\<close>) is an 8-bit word. A \<open>cv::Mat\<close> header is a record of its
  row and column counts and its row-major pixel data, so that \<open>m.at(i, j)\<close> is element
  \<open>i * cols + j\<close>, the same addressing as the \<open>uchar4\<close> buffers of the mipmap filter.
  The element type of a matrix is known at run time only, so an image is a tagged union
  over the three element types the compositor handles.

  The C++ \<open>int\<close> values (target class, tolerance, intermediate sums) are modelled as
  unbounded integers; \<open>int32_range\<close> states that a value is representable, and the
  theorems assume it where a 32-bit subtraction or product could overflow otherwise.
\<close>

type_synonym uchar = "8 word"
type_synonym Vec3b = "uchar \<times> uchar \<times> uchar"
type_synonym Vec4b = "uchar \<times> uchar \<times> uchar \<times> uchar"
type_synonym uchar4 = "uchar \<times> uchar \<times> uchar \<times> uchar"

record 'p Mat =
  rows :: nat
  cols :: nat
  data :: "'p list"

datatype image = CV_8UC1 "uchar Mat" | CV_8UC3 "Vec3b Mat" | CV_8UC4 "Vec4b Mat"

definition Mat_at :: "'p Mat \<Rightarrow> nat \<Rightarrow> nat \<Rightarrow> 'p" where
  "Mat_at m i j = data m ! (i * cols m + j)"

definition Mat_wf :: "'p Mat \<Rightarrow> bool" where
  "Mat_wf m \<longleftrightarrow> length (data m) = rows m * cols m"

definition Mat_empty :: "'p Mat \<Rightarrow> bool" where
  "Mat_empty m \<longleftrightarrow> rows m * cols m = 0"

fun image_rows :: "image \<Rightarrow> nat" where
  "image_rows (CV_8UC1 m) = rows m"
| "image_rows (CV_8UC3 m) = rows m"
| "image_rows (CV_8UC4 m) = rows m"

fun image_cols :: "image \<Rightarrow> nat" where
  "image_cols (CV_8UC1 m) = cols m"
| "image_cols (CV_8UC3 m) = cols m"
| "image_cols (CV_8UC4 m) = cols m"

fun image_wf :: "image \<Rightarrow> bool" where
  "image_wf (CV_8UC1 m) = Mat_wf m"
| "image_wf (CV_8UC3 m) = Mat_wf m"
| "image_wf (CV_8UC4 m) = Mat_wf m"

definition image_empty :: "image \<Rightarrow> bool" where
  "image_empty im \<longleftrightarrow> image_rows im * image_cols im = 0"

definition image_size :: "image \<Rightarrow> nat \<times> nat" where
  "image_size im = (image_cols im, image_rows im)"

definition int32_range :: "int \<Rightarrow> bool" where
  "int32_range x \<longleftrightarrow> - (2 ^ 31) \<le> x \<and> x < 2 ^ 31"

text \<open>The row-major order in which the nested \<open>for (i) for (j)\<close> loops visit the pixels.\<close>

definition pixel_order :: "nat \<Rightarrow> nat \<Rightarrow> (nat \<times> nat) list" where
  "pixel_order r c = List.product [0..<r] [0..<c]"

section \<open>glow_blow: the highlight overlay\<close>

definition overlay_color :: Vec4b where
  "overlay_color = (128, 0, 128, 255)"

definition transparent :: Vec4b where
  "transparent = (0, 0, 0, 0)"

text \<open>The local variables of \<open>glow_blow\<close> that its pixel loop updates.\<close>

record blow_state =
  dst_data :: "Vec4b list"
  has_target_region :: bool
  target_pixel_count :: int
  min_x :: int
  max_x :: int
  min_y :: int
  max_y :: int

definition glow_blow_pixel :: "uchar Mat \<Rightarrow> int \<Rightarrow> int \<Rightarrow> nat \<times> nat \<Rightarrow> blow_state \<Rightarrow> blow_state" where
  "glow_blow_pixel msk param_KeyLevel Delta = (\<lambda>(i, j) s.
     let mask_pixel = uint (Mat_at msk i j) in
     if \<bar>mask_pixel - param_KeyLevel\<bar> < Delta
     then s\<lparr>dst_data := (dst_data s)[i * cols msk + j := overlay_color],
            has_target_region := True,
            target_pixel_count := target_pixel_count s + 1,
            min_x := min (min_x s) (int j),
            max_x := max (max_x s) (int j),
            min_y := min (min_y s) (int i),
            max_y := max (max_y s) (int i)\<rparr>
     else s)"

definition glow_blow_loop :: "uchar Mat \<Rightarrow> int \<Rightarrow> int \<Rightarrow> blow_state" where
  "glow_blow_loop msk param_KeyLevel Delta =
     fold (glow_blow_pixel msk param_KeyLevel Delta) (pixel_order (rows msk) (cols msk))
       \<lparr>dst_data = replicate (rows msk * cols msk) transparent,
        has_target_region = False, target_pixel_count = 0,
        min_x = int (cols msk), max_x = 0, min_y = int (rows msk), max_y = 0\<rparr>"

text \<open>
  \<open>glow_blow(msk, dst_rgba, param_KeyLevel, Delta)\<close> returns nothing and writes its
  second argument; the model returns the new value of \<open>dst_rgba\<close>. An empty mask and a
  mask that is not \<open>CV_8UC1\<close> leave \<open>dst_rgba\<close> as it was.
\<close>

fun glow_blow :: "image \<Rightarrow> image \<Rightarrow> int \<Rightarrow> int \<Rightarrow> image" where
  "glow_blow (CV_8UC1 msk) dst_rgba param_KeyLevel Delta =
     (if Mat_empty msk then dst_rgba
      else CV_8UC4 \<lparr>rows = rows msk, cols = cols msk,
                    data = dst_data (glow_blow_loop msk param_KeyLevel Delta)\<rparr>)"
| "glow_blow msk dst_rgba param_KeyLevel Delta = dst_rgba"

text \<open>What \<open>glow_blow\<close> prints about the matched region, when there is one:
  the count and the bounding box \<open>(min_x, min_y, max_x, max_y)\<close>.\<close>

definition glow_blow_region :: "uchar Mat \<Rightarrow> int \<Rightarrow> int \<Rightarrow> (int \<times> int \<times> int \<times> int \<times> int) option" where
  "glow_blow_region msk param_KeyLevel Delta =
     (let s = glow_blow_loop msk param_KeyLevel Delta in
      if \<not> Mat_empty msk \<and> has_target_region s
      then Some (target_pixel_count s, min_x s, min_y s, max_x s, max_y s) else None)"

text \<open>The pixels of an overlay that are not fully transparent.\<close>

fun alpha :: "Vec4b \<Rightarrow> uchar" where
  "alpha (b, g, r, a) = a"

fun non_transparent_count :: "image \<Rightarrow> nat" where
  "non_transparent_count (CV_8UC4 m) = length (filter (\<lambda>p. alpha p \<noteq> 0) (data m))"
| "non_transparent_count im = 0"

fun image_at4 :: "image \<Rightarrow> nat \<Rightarrow> nat \<Rightarrow> Vec4b option" where
  "image_at4 (CV_8UC4 m) i j = (if i < rows m \<and> j < cols m then Some (Mat_at m i j) else None)"
| "image_at4 im i j = None"

section \<open>The RGBA buffer of the mipmap filter\<close>

text \<open>
  \<open>convert_mask_to_rgba_buffer\<close>, \<open>apply_mipmap\<close> and \<open>apply_mipmap_async\<close> all turn a
  mask pixel into a \<open>uchar4\<close> with the same test: \<open>gray_value == param_KeyLevel\<close>, the
  \<open>unsigned char\<close> promoted to \<open>int\<close>.
\<close>

definition mask_to_rgba :: "int \<Rightarrow> uchar \<Rightarrow> uchar4" where
  "mask_to_rgba param_KeyLevel gray_value =
     (if uint gray_value = param_KeyLevel then (gray_value, gray_value, gray_value, 255)
      else (0, 0, 0, 0))"

text \<open>
  \<open>convert_mask_to_rgba_buffer\<close> writes \<open>dst[i * frame_width + j]\<close> for every pixel of a
  \<open>frame_height\<close> by \<open>frame_width\<close> frame, reading \<open>mask.at(i, j)\<close>. Reading outside the
  mask or writing outside \<open>dst\<close> is undefined behaviour in C++; the model returns \<open>None\<close>
  there.
\<close>

definition convert_mask_to_rgba_buffer ::
    "uchar Mat \<Rightarrow> uchar4 list \<Rightarrow> nat \<Rightarrow> nat \<Rightarrow> int \<Rightarrow> uchar4 list option" where
  "convert_mask_to_rgba_buffer msk dst frame_width frame_height param_KeyLevel =
     (if frame_height \<le> rows msk \<and> frame_width \<le> cols msk \<and> Mat_wf msk \<and>
         frame_height * frame_width \<le> length dst
      then Some (fold (\<lambda>(i, j) d. d[i * frame_width + j := mask_to_rgba param_KeyLevel (Mat_at msk i j)])
                   (pixel_order frame_height frame_width) dst)
      else None)"

text \<open>
  The source buffer that \<open>apply_mipmap_async\<close> (and \<open>apply_mipmap\<close>) allocates and fills
  before it calls the filter. The allocation's first content does not matter, every
  element is written; the model starts from zeros.
\<close>

definition mipmap_src_img :: "uchar Mat \<Rightarrow> int \<Rightarrow> uchar4 list" where
  "mipmap_src_img input_gray param_KeyLevel =
     fold (\<lambda>(i, j) s. s[i * cols input_gray + j := mask_to_rgba param_KeyLevel (Mat_at input_gray i j)])
       (pixel_order (rows input_gray) (cols input_gray))
       (replicate (rows input_gray * cols input_gray) (0, 0, 0, 0))"

text \<open>
  The filter kernel (\<open>filter_mipmap\<close>, \<open>filter_mipmap_async\<close>) is an external
  collaborator: a parameter that maps width, height, scale and the source buffer to the
  destination buffer it leaves when its stream has completed.
\<close>

type_synonym mipmap_filter = "nat \<Rightarrow> nat \<Rightarrow> real \<Rightarrow> uchar4 list \<Rightarrow> uchar4 list"

definition apply_mipmap_async :: "mipmap_filter \<Rightarrow> uchar Mat \<Rightarrow> real \<Rightarrow> int \<Rightarrow> uchar4 list" where
  "apply_mipmap_async filter_mipmap_async input_gray scale param_KeyLevel =
     filter_mipmap_async (cols input_gray) (rows input_gray) scale
       (mipmap_src_img input_gray param_KeyLevel)"

section \<open>mix_images: the blend\<close>

datatype mix_error = EmptyInput | SizeMismatch | CvtColorUnsupported

text \<open>\<open>static_cast<int>\<close> of a finite \<open>float\<close> truncates towards zero.\<close>

definition static_cast_int :: "real \<Rightarrow> int" where
  "static_cast_int x = (if 0 \<le> x then \<lfloor>x\<rfloor> else \<lceil>x\<rceil>)"

text \<open>
  \<open>cv::cvtColor\<close> is OpenCV's: \<open>COLOR_BGR2BGRA\<close> appends an opaque alpha channel to a
  3-channel image and raises for a 1-channel one; \<open>COLOR_BGR2GRAY\<close> reduces the first three
  channels of a pixel to one luma value, by a function that is a parameter here.
  \<open>mix_images\<close> converts only when the channel count is not already the one it needs.
\<close>

fun to_bgra :: "image \<Rightarrow> mix_error + Vec4b Mat" where
  "to_bgra (CV_8UC4 m) = Inr m"
| "to_bgra (CV_8UC3 m) =
     Inr \<lparr>rows = rows m, cols = cols m, data = map (\<lambda>(b, g, r). (b, g, r, 255)) (data m)\<rparr>"
| "to_bgra (CV_8UC1 m) = Inl CvtColorUnsupported"

fun to_gray :: "(uchar \<Rightarrow> uchar \<Rightarrow> uchar \<Rightarrow> uchar) \<Rightarrow> image \<Rightarrow> uchar Mat" where
  "to_gray bgr2gray (CV_8UC1 m) = m"
| "to_gray bgr2gray (CV_8UC3 m) =
     \<lparr>rows = rows m, cols = cols m, data = map (\<lambda>(b, g, r). bgr2gray b g r) (data m)\<rparr>"
| "to_gray bgr2gray (CV_8UC4 m) =
     \<lparr>rows = rows m, cols = cols m, data = map (\<lambda>(b, g, r, a). bgr2gray b g r) (data m)\<rparr>"

text \<open>OpenCV's 8-bit luma, in 15-bit fixed point; it maps a grey pixel \<open>(v, v, v)\<close> to \<open>v\<close>.\<close>

definition cv_bgr2gray :: "uchar \<Rightarrow> uchar \<Rightarrow> uchar \<Rightarrow> uchar" where
  "cv_bgr2gray b g r =
     word_of_int (drop_bit 15 (uint b * 3735 + uint g * 19235 + uint r * 9798 + 16384))"

text \<open>
  \<open>uchar alpha = (original_alpha * static_cast<int>(param_KeyScale)) >> 8;\<close>
  The shift is an arithmetic shift of an \<open>int\<close>; the initialisation of the
  \<open>uchar\<close> keeps the low eight bits.
\<close>

definition blend_weight :: "uchar \<Rightarrow> real \<Rightarrow> uchar" where
  "blend_weight original_alpha param_KeyScale =
     word_of_int (drop_bit 8 (uint original_alpha * static_cast_int param_KeyScale))"

text \<open>
  \<open>int temp_pixel = (src_pixel[k] * (255 - alpha) + dst_pixel[k] * alpha) >> 8;\<close>
  \<open>output_pixel[k] = static_cast<uchar>(std::min(255, std::max(0, temp_pixel)));\<close>
\<close>

definition mix_channel :: "uchar \<Rightarrow> uchar \<Rightarrow> uchar \<Rightarrow> uchar" where
  "mix_channel weight src_k dst_k =
     (let temp_pixel = drop_bit 8 (uint src_k * (255 - uint weight) + uint dst_k * uint weight)
      in word_of_int (min 255 (max 0 temp_pixel)))"

fun mix_pixel :: "uchar \<Rightarrow> Vec4b \<Rightarrow> Vec4b \<Rightarrow> Vec4b" where
  "mix_pixel weight (s0, s1, s2, s3) (d0, d1, d2, d3) =
     (mix_channel weight s0 d0, mix_channel weight s1 d1,
      mix_channel weight s2 d2, mix_channel weight s3 d3)"

definition mix_loop :: "Vec4b Mat \<Rightarrow> Vec4b Mat \<Rightarrow> uchar Mat \<Rightarrow> real \<Rightarrow> Vec4b list" where
  "mix_loop src_rgba high_lighted_rgba mipmap_gray param_KeyScale =
     fold (\<lambda>(i, j) out.
             out[i * cols src_rgba + j :=
                   mix_pixel (blend_weight (Mat_at mipmap_gray i j) param_KeyScale)
                     (Mat_at src_rgba i j) (Mat_at high_lighted_rgba i j)])
       (pixel_order (rows src_rgba) (cols src_rgba)) (data src_rgba)"

text \<open>
  \<open>mix_images\<close> returns nothing and writes \<open>output_image\<close>; on its two error returns it
  prints a message and leaves \<open>output_image\<close> untouched. The model returns the error or
  the image written.
\<close>

definition mix_images ::
    "(uchar \<Rightarrow> uchar \<Rightarrow> uchar \<Rightarrow> uchar) \<Rightarrow> image \<Rightarrow> image \<Rightarrow> image \<Rightarrow> real \<Rightarrow> mix_error + Vec4b Mat" where
  "mix_images bgr2gray src_img dst_rgba mipmap_result param_KeyScale =
     (if image_empty src_img \<or> image_empty dst_rgba \<or> image_empty mipmap_result
      then Inl EmptyInput
      else if image_size src_img \<noteq> image_size dst_rgba \<or>
              image_size src_img \<noteq> image_size mipmap_result
      then Inl SizeMismatch
      else case to_bgra src_img of
        Inl e \<Rightarrow> Inl e
      | Inr src_rgba \<Rightarrow>
         (case to_bgra dst_rgba of
            Inl e \<Rightarrow> Inl e
          | Inr high_lighted_rgba \<Rightarrow>
              let mipmap_gray = to_gray bgr2gray mipmap_result
              in Inr \<lparr>rows = rows src_rgba, cols = cols src_rgba,
                      data = mix_loop src_rgba high_lighted_rgba mipmap_gray param_KeyScale\<rparr>))"

text \<open>The blend weight as the specification words it: shifted, then clamped to \<open>[0, 255]\<close>.\<close>

definition spec_blend_weight :: "uchar \<Rightarrow> real \<Rightarrow> uchar" where
  "spec_blend_weight mipmapLuma intensityScale =
     word_of_int (min 255 (max 0 (drop_bit 8 (uint mipmapLuma * static_cast_int intensityScale))))"

section \<open>triple_buffered_mipmap_pipeline\<close>

text \<open>
  The pipeline works on three pinned destination buffers, one stream and one event per
  buffer. What the CUDA runtime answers is the environment of the model:
  \<open>setup\<close> is the outcome of creating the streams, events and pinned buffers, and
  \<open>query k\<close> is what \<open>cudaEventQuery\<close> answers when result \<open>k\<close> is harvested.
  \<open>checkCudaErrors\<close> (cuda-samples, \<open>helper_cuda.h\<close>) prints and calls
  \<open>exit(EXIT_FAILURE)\<close> on any code but \<open>cudaSuccess\<close>; it does not throw.
\<close>

datatype cudaError = cudaSuccess | cudaErrorNotReady | cudaErrorOther

datatype pipeline_error = ProcessExit | UndefinedBehaviour

text \<open>
  Besides the source's buffers and its result vector, the state carries a trace, which
  the source does not have: it records at which step and in which buffer slot each mask
  was issued and each result harvested.
\<close>

datatype pipeline_event = Issued nat nat nat | Harvested nat nat nat

record pipeline_state =
  tripleSrc :: "uchar4 list list"
  tripleDst :: "uchar4 list list"
  outputImages :: "image list"
  trace :: "pipeline_event list"

text \<open>A default-constructed \<open>cv::Mat\<close>: no rows, no columns, no data.\<close>

definition Mat_default :: image where
  "Mat_default = CV_8UC1 \<lparr>rows = 0, cols = 0, data = []\<rparr>"

text \<open>
  The filter leaves its output at the start of the destination buffer; an output longer
  than the buffer would be written past its end.
\<close>

definition write_dst :: "uchar4 list \<Rightarrow> uchar4 list \<Rightarrow> uchar4 list option" where
  "write_dst out buf = (if length out \<le> length buf then Some (out @ drop (length out) buf) else None)"

text \<open>
  The first half of the loop body, for \<open>i < N\<close>: fill \<open>tripleSrc[bufIdx]\<close>, launch the
  filter on \<open>tripleDst[bufIdx]\<close>, record the event. The slot's content in the model is
  what the buffer holds once the recorded event has completed.
\<close>

definition pipeline_issue ::
    "mipmap_filter \<Rightarrow> uchar Mat list \<Rightarrow> nat \<Rightarrow> nat \<Rightarrow> real \<Rightarrow> int \<Rightarrow> nat \<Rightarrow>
     pipeline_state \<Rightarrow> pipeline_error + pipeline_state" where
  "pipeline_issue filter_mipmap_async resized_masks frame_width frame_height default_scale
       param_KeyLevel i st =
     (let bufIdx = i mod 3 in
      case convert_mask_to_rgba_buffer (resized_masks ! i) (tripleSrc st ! bufIdx)
             frame_width frame_height param_KeyLevel of
        None \<Rightarrow> Inl UndefinedBehaviour
      | Some src \<Rightarrow>
         (case write_dst (apply_mipmap_async filter_mipmap_async (resized_masks ! i)
                            default_scale param_KeyLevel) (tripleDst st ! bufIdx) of
            None \<Rightarrow> Inl UndefinedBehaviour
          | Some dst \<Rightarrow>
              Inr (st\<lparr>tripleSrc := (tripleSrc st)[bufIdx := src],
                      tripleDst := (tripleDst st)[bufIdx := dst],
                      trace := trace st @ [Issued i bufIdx i]\<rparr>)))"

text \<open>
  The second half, for \<open>0 \<le> i - 2 < N\<close>: one \<open>cudaEventQuery\<close>; on \<open>cudaSuccess\<close> the
  buffer is copied into \<open>outputImages[i - 2]\<close>, on \<open>cudaErrorNotReady\<close> nothing is
  done, any other code goes to \<open>checkCudaErrors\<close>.
\<close>

definition pipeline_harvest ::
    "(nat \<Rightarrow> cudaError) \<Rightarrow> nat \<Rightarrow> nat \<Rightarrow> nat \<Rightarrow> pipeline_state \<Rightarrow> pipeline_error + pipeline_state" where
  "pipeline_harvest query frame_width frame_height i st =
     (let bufIdx = (i - 2) mod 3 in
      case query (i - 2) of
        cudaSuccess \<Rightarrow>
          Inr (st\<lparr>outputImages := (outputImages st)[i - 2 :=
                     CV_8UC4 \<lparr>rows = frame_height, cols = frame_width,
                              data = take (frame_width * frame_height) (tripleDst st ! bufIdx)\<rparr>],
                  trace := trace st @ [Harvested i bufIdx (i - 2)]\<rparr>)
      | cudaErrorNotReady \<Rightarrow> Inr st
      | cudaErrorOther \<Rightarrow> Inl ProcessExit)"

definition pipeline_step ::
    "mipmap_filter \<Rightarrow> (nat \<Rightarrow> cudaError) \<Rightarrow> uchar Mat list \<Rightarrow> nat \<Rightarrow> nat \<Rightarrow> real \<Rightarrow> int \<Rightarrow> nat \<Rightarrow>
     pipeline_state \<Rightarrow> pipeline_error + pipeline_state" where
  "pipeline_step filter_mipmap_async query resized_masks frame_width frame_height default_scale
       param_KeyLevel i st =
     (case (if i < length resized_masks
            then pipeline_issue filter_mipmap_async resized_masks frame_width frame_height
                   default_scale param_KeyLevel i st
            else Inr st) of
        Inl e \<Rightarrow> Inl e
      | Inr st1 \<Rightarrow>
          if 2 \<le> i \<and> i - 2 < length resized_masks
          then pipeline_harvest query frame_width frame_height i st1
          else Inr st1)"

text \<open>The state after the first \<open>n\<close> iterations of \<open>for (int i = 0; i < N + 2; ++i)\<close>.\<close>

primrec pipeline_run ::
    "mipmap_filter \<Rightarrow> (nat \<Rightarrow> cudaError) \<Rightarrow> uchar Mat list \<Rightarrow> nat \<Rightarrow> nat \<Rightarrow> real \<Rightarrow> int \<Rightarrow>
     pipeline_state \<Rightarrow> nat \<Rightarrow> pipeline_error + pipeline_state" where
  "pipeline_run filter_mipmap_async query resized_masks frame_width frame_height default_scale
       param_KeyLevel st0 0 = Inr st0"
| "pipeline_run filter_mipmap_async query resized_masks frame_width frame_height default_scale
       param_KeyLevel st0 (Suc n) =
     (case pipeline_run filter_mipmap_async query resized_masks frame_width frame_height
             default_scale param_KeyLevel st0 n of
        Inl e \<Rightarrow> Inl e
      | Inr st \<Rightarrow> pipeline_step filter_mipmap_async query resized_masks frame_width frame_height
                    default_scale param_KeyLevel n st)"

text \<open>
  The pinned buffers are not initialised by \<open>cudaMallocHost\<close>; the model starts them
  at zeros. \<open>outputImages\<close> starts as \<open>N\<close> default matrices.
\<close>

definition pipeline_init :: "nat \<Rightarrow> nat \<Rightarrow> nat \<Rightarrow> pipeline_state" where
  "pipeline_init N frame_width frame_height =
     \<lparr>tripleSrc = replicate 3 (replicate (frame_width * frame_height) (0, 0, 0, 0)),
      tripleDst = replicate 3 (replicate (frame_width * frame_height) (0, 0, 0, 0)),
      outputImages = replicate N Mat_default,
      trace = []\<rparr>"

definition triple_buffered_mipmap_pipeline_state ::
    "mipmap_filter \<Rightarrow> cudaError \<Rightarrow> (nat \<Rightarrow> cudaError) \<Rightarrow> uchar Mat list \<Rightarrow> nat \<Rightarrow> nat \<Rightarrow> real \<Rightarrow> int \<Rightarrow>
     pipeline_error + pipeline_state" where
  "triple_buffered_mipmap_pipeline_state filter_mipmap_async setup query resized_masks
       frame_width frame_height default_scale param_KeyLevel =
     (let N = length resized_masks in
      if setup \<noteq> cudaSuccess then Inl ProcessExit
      else pipeline_run filter_mipmap_async query resized_masks frame_width frame_height
             default_scale param_KeyLevel (pipeline_init N frame_width frame_height) (N + 2))"

definition triple_buffered_mipmap_pipeline ::
    "mipmap_filter \<Rightarrow> cudaError \<Rightarrow> (nat \<Rightarrow> cudaError) \<Rightarrow> uchar Mat list \<Rightarrow> nat \<Rightarrow> nat \<Rightarrow> real \<Rightarrow> int \<Rightarrow>
     pipeline_error + image list" where
  "triple_buffered_mipmap_pipeline filter_mipmap_async setup query resized_masks
       frame_width frame_height default_scale param_KeyLevel =
     map_sum id outputImages
       (triple_buffered_mipmap_pipeline_state filter_mipmap_async setup query resized_masks
          frame_width frame_height default_scale param_KeyLevel)"

text \<open>
  The invariant of the pipeline loop when \<open>a\<close> masks have been issued and the harvest
  half has run for the steps below \<open>n\<close>: the buffers keep their size, the last three
  issued results sit in their slots, and result \<open>k\<close> has been copied out exactly if
  step \<open>k + 2\<close> is over and its query answered \<open>cudaSuccess\<close>.
\<close>

definition pipeline_inv ::
    "mipmap_filter \<Rightarrow> (nat \<Rightarrow> cudaError) \<Rightarrow> uchar Mat list \<Rightarrow> nat \<Rightarrow> nat \<Rightarrow> real \<Rightarrow> int \<Rightarrow>
     nat \<Rightarrow> nat \<Rightarrow> pipeline_state \<Rightarrow> bool" where
  "pipeline_inv flt query ms w h sc K a n st \<longleftrightarrow>
     length (tripleSrc st) = 3 \<and> (\<forall>b < 3. length (tripleSrc st ! b) = w * h) \<and>
     length (tripleDst st) = 3 \<and> (\<forall>b < 3. length (tripleDst st ! b) = w * h) \<and>
     length (outputImages st) = length ms \<and>
     (\<forall>k. k < a \<and> a \<le> k + 3 \<longrightarrow> tripleDst st ! (k mod 3) = apply_mipmap_async flt (ms ! k) sc K) \<and>
     (\<forall>k < length ms. outputImages st ! k =
        (if k + 2 < n \<and> query k = cudaSuccess
         then CV_8UC4 \<lparr>rows = h, cols = w, data = apply_mipmap_async flt (ms ! k) sc K\<rparr>
         else Mat_default)) \<and>
     (\<forall>s b k. Issued s b k \<in> set (trace st) \<longleftrightarrow> k < a \<and> s = k \<and> b = k mod 3) \<and>
     (\<forall>s b k. Harvested s b k \<in> set (trace st) \<longleftrightarrow>
        k < length ms \<and> k + 2 < n \<and> query k = cudaSuccess \<and> s = k + 2 \<and> b = k mod 3)"

text \<open>
  The runs the ordering claims are about: every mask has the frame's dimensions, the
  filter writes a full frame, and no event query fails with an error code.
\<close>

definition pipeline_inputs_ok ::
    "mipmap_filter \<Rightarrow> (nat \<Rightarrow> cudaError) \<Rightarrow> uchar Mat list \<Rightarrow> nat \<Rightarrow> nat \<Rightarrow> real \<Rightarrow> int \<Rightarrow> bool" where
  "pipeline_inputs_ok flt query ms w h sc K \<longleftrightarrow>
     (\<forall>m \<in> set ms. Mat_wf m \<and> rows m = h \<and> cols m = w \<and>
                    length (flt w h sc (mipmap_src_img m K)) = w * h) \<and>
     (\<forall>k < length ms. query k \<noteq> cudaErrorOther)"

section \<open>measure_segmentation_trt_performance_mul_concurrent\<close>

text \<open>
  The batch is a list of image tensors (\<open>img_tensor_batch\<close> along dimension 0). The
  TensorRT engine together with the arg-max and scaling that follow it is a parameter
  \<open>infer\<close>: it maps the sub-batch a worker enqueues to the list \<open>imagePost\<close> of masks,
  one per image of the output's batch dimension. Creating an execution context and the
  timed \<open>enqueueV2\<close> can fail; their outcomes per worker are parameters too.
\<close>

text \<open>\<open>startIdx = t * subBatch\<close>, \<open>endIdx = std::min(startIdx + subBatch, totalBatch)\<close>.\<close>

definition sub_batch_range :: "nat \<Rightarrow> nat \<Rightarrow> nat \<Rightarrow> nat \<times> nat" where
  "sub_batch_range totalBatch subBatch t =
     (let startIdx = t * subBatch; endIdx = min (startIdx + subBatch) totalBatch
      in (startIdx, endIdx))"

text \<open>The ceiling division \<open>(totalBatch + numThreads - 1) / numThreads\<close>.\<close>

definition sub_batch_size :: "nat \<Rightarrow> nat \<Rightarrow> nat" where
  "sub_batch_size totalBatch numThreads = (totalBatch + numThreads - 1) div numThreads"

text \<open>\<open>img_tensor_batch.slice(0, startIdx, endIdx)\<close>.\<close>

definition tensor_slice :: "'t list \<Rightarrow> nat \<Rightarrow> nat \<Rightarrow> 't list" where
  "tensor_slice xs startIdx endIdx = take (endIdx - startIdx) (drop startIdx xs)"

text \<open>
  Padding to the engine's batch of 4: \<open>pad\<close> copies of the last image of the sub-batch
  are appended when it has fewer than 4.
\<close>

definition pad_sub_batch :: "'t list \<Rightarrow> 't list" where
  "pad_sub_batch subTensor =
     (if length subTensor < 4
      then (let pad = 4 - length subTensor;
                lastFrame = subTensor ! (length subTensor - 1)
            in subTensor @ replicate pad lastFrame)
      else subTensor)"

text \<open>
  What one worker thread does: it returns early without a context or without images,
  the process exits when the timed \<open>enqueueV2\<close> fails (and terminates when
  \<open>imagePost[i]\<close> is indexed out of range inside the thread), and otherwise the worker
  writes its first \<open>validCount\<close> masks to \<open>allResults\<close> from \<open>startIdx\<close> on.
\<close>

datatype 'm worker_outcome = Returned | Exited | Wrote nat "'m list"

definition concurrent_worker ::
    "('t list \<Rightarrow> 'm list) \<Rightarrow> (nat \<Rightarrow> bool) \<Rightarrow> (nat \<Rightarrow> bool) \<Rightarrow> 't list \<Rightarrow> nat \<Rightarrow> nat \<Rightarrow>
     'm worker_outcome" where
  "concurrent_worker infer context_ok enqueue_ok img_tensor_batch subBatch t =
     (if \<not> context_ok t then Returned
      else
        let totalBatch = length img_tensor_batch;
            (startIdx, endIdx) = sub_batch_range totalBatch subBatch t
        in if endIdx \<le> startIdx then Returned
           else
             let validCount = endIdx - startIdx;
                 subTensor = pad_sub_batch (tensor_slice img_tensor_batch startIdx endIdx)
             in if \<not> enqueue_ok t then Exited
                else
                  let imagePost = infer subTensor
                  in if length imagePost < validCount then Exited
                     else Wrote startIdx (take validCount imagePost))"

text \<open>
  The critical section of a worker: \<open>allResults[startIdx + i] = localResults[i]\<close> for
  \<open>i < validCount\<close>.
\<close>

definition write_results :: "nat \<Rightarrow> 'm list \<Rightarrow> 'm list \<Rightarrow> 'm list" where
  "write_results startIdx localResults allResults =
     fold (\<lambda>i res. res[startIdx + i := localResults ! i]) [0..<length localResults] allResults"

text \<open>
  The threads run concurrently and write \<open>allResults\<close> under a mutex. A run is given by
  the order \<open>schedule\<close> in which the workers pass their critical sections; the process
  has no result when a worker made it exit. \<open>engine_ok\<close> is the outcome of deserialising
  the engine, \<open>empty_mat\<close> the default \<open>cv::Mat\<close> that \<open>allResults\<close> starts with.
\<close>

datatype inference_error = EngineFailed | WorkerExit

definition merge_workers :: "'m worker_outcome list \<Rightarrow> 'm list \<Rightarrow> inference_error + 'm list" where
  "merge_workers outcomes allResults =
     (if Exited \<in> set outcomes then Inl WorkerExit
      else Inr (fold (\<lambda>outcome res.
                        case outcome of Wrote startIdx localResults \<Rightarrow>
                                          write_results startIdx localResults res
                                      | _ \<Rightarrow> res)
                  outcomes allResults))"

definition measure_segmentation_trt_performance_mul_concurrent ::
    "bool \<Rightarrow> ('t list \<Rightarrow> 'm list) \<Rightarrow> (nat \<Rightarrow> bool) \<Rightarrow> (nat \<Rightarrow> bool) \<Rightarrow> nat list \<Rightarrow> 'm \<Rightarrow>
     't list \<Rightarrow> inference_error + 'm list" where
  "measure_segmentation_trt_performance_mul_concurrent engine_ok infer context_ok enqueue_ok
       schedule empty_mat img_tensor_batch =
     (if \<not> engine_ok then Inl EngineFailed
      else
        let totalBatch = length img_tensor_batch;
            numThreads = 2;
            subBatch = sub_batch_size totalBatch numThreads
        in merge_workers
             (map (concurrent_worker infer context_ok enqueue_ok img_tensor_batch subBatch) schedule)
             (replicate totalBatch empty_mat))"

text \<open>A schedule of the \<open>numThreads\<close> workers: each worker once, in any order.\<close>

definition is_schedule :: "nat \<Rightarrow> nat list \<Rightarrow> bool" where
  "is_schedule numThreads schedule \<longleftrightarrow> distinct schedule \<and> set schedule = {0..<numThreads}"

section \<open>glow_effect_video: the orchestrator\<close>

text \<open>
  The video is the list of frames that \<open>video.read\<close> delivers; reading past its end
  fails, and keeps failing. Segmentation of a four-frame sub-batch (preprocessing and
  \<open>measure_segmentation_trt_performance_mul_concurrent\<close>) is a parameter \<open>segment\<close>,
  the compositing of one frame with one mask (mask resize, \<open>glow_blow\<close>, mipmap pipeline,
  \<open>mix_images\<close>, blank substitute) a parameter \<open>render\<close>, and \<open>key_q n\<close> tells whether
  \<open>cv::waitKey\<close> returns \<open>'q'\<close> when the frame shown is the one after \<open>n\<close> written ones.
\<close>

datatype video_status = Completed | QuitByUser | OpenFailed | IndexOutOfRange

text \<open>
  The read loop \<open>for (int i = 0; i < 8; ++i)\<close>: a frame that is read is appended; when
  reading fails the loop stops if nothing has been read in this batch, and appends a
  copy of the last frame otherwise. \<open>batch_frames\<close> holds the tensor of each frame of
  \<open>original_frames\<close> and is not modelled apart from it.
\<close>

fun read_batch :: "nat \<Rightarrow> 'f list \<Rightarrow> 'f list \<Rightarrow> 'f list \<times> 'f list" where
  "read_batch 0 video original_frames = (original_frames, video)"
| "read_batch (Suc n) [] original_frames =
     (if original_frames = [] then (original_frames, [])
      else read_batch n [] (original_frames @ [last original_frames]))"
| "read_batch (Suc n) (frame # video) original_frames =
     read_batch n video (original_frames @ [frame])"

text \<open>
  The last loop of a drain: render, show, stop on \<open>'q'\<close>, write. The result is the sink
  and, when the function is to stop, why.
\<close>

fun emit_loop ::
    "('f \<Rightarrow> 'm \<Rightarrow> 'o) \<Rightarrow> (nat \<Rightarrow> bool) \<Rightarrow> 'f list \<Rightarrow> 'm list \<Rightarrow> nat \<Rightarrow> nat list \<Rightarrow> 'o list \<Rightarrow>
     'o list \<times> video_status option" where
  "emit_loop render key_q original_frames grayscale_masks off [] sink = (sink, None)"
| "emit_loop render key_q original_frames grayscale_masks off (i # rest) sink =
     (let final_result = render (original_frames ! (i + off)) (grayscale_masks ! i)
      in if key_q (length sink) then (sink, Some QuitByUser)
         else emit_loop render key_q original_frames grayscale_masks off rest
                (sink @ [final_result]))"

text \<open>
  Draining one future. The first loop of the drain already indexes
  \<open>original_frames[off .. off + 3]\<close> and \<open>grayscale_masks[0 .. 3]\<close> with
  \<open>operator[]\<close>; outside the vectors that is undefined behaviour, and the model stops
  with \<open>IndexOutOfRange\<close>.
\<close>

definition emit_sub_batch ::
    "('f \<Rightarrow> 'm \<Rightarrow> 'o) \<Rightarrow> (nat \<Rightarrow> bool) \<Rightarrow> 'f list \<Rightarrow> 'm list \<Rightarrow> nat \<Rightarrow> 'o list \<Rightarrow>
     'o list \<times> video_status option" where
  "emit_sub_batch render key_q original_frames grayscale_masks off sink =
     (if off + 4 \<le> length original_frames \<and> 4 \<le> length grayscale_masks
      then emit_loop render key_q original_frames grayscale_masks off [0..<4] sink
      else (sink, Some IndexOutOfRange))"

text \<open>\<open>segFuture1\<close> and \<open>segFuture2\<close> are set and consumed together: one optional pair.\<close>

definition drain_pending ::
    "('f \<Rightarrow> 'm \<Rightarrow> 'o) \<Rightarrow> (nat \<Rightarrow> bool) \<Rightarrow> 'f list \<Rightarrow> ('m list \<times> 'm list) option \<Rightarrow> 'o list \<Rightarrow>
     'o list \<times> video_status option" where
  "drain_pending render key_q original_frames pending sink =
     (case pending of
        None \<Rightarrow> (sink, None)
      | Some (masks1, masks2) \<Rightarrow>
         (case emit_sub_batch render key_q original_frames masks1 0 sink of
            (sink1, Some stop) \<Rightarrow> (sink1, Some stop)
          | (sink1, None) \<Rightarrow> emit_sub_batch render key_q original_frames masks2 4 sink1))"

text \<open>
  \<open>while (video.isOpened())\<close>: clear both vectors, read a batch, leave the loop if it
  is empty; otherwise drain the futures of the previous iteration against the
  \<open>original_frames\<close> just read, and launch segmentation of the new batch. After the
  loop the futures still pending are drained against \<open>original_frames\<close> as the loop
  left it: cleared.
\<close>

function video_loop ::
    "('f list \<Rightarrow> 'm list) \<Rightarrow> ('f \<Rightarrow> 'm \<Rightarrow> 'o) \<Rightarrow> (nat \<Rightarrow> bool) \<Rightarrow> 'f list \<Rightarrow>
     ('m list \<times> 'm list) option \<Rightarrow> 'o list \<Rightarrow> 'o list \<times> video_status" where
  "video_loop segment render key_q [] pending sink =
     (case drain_pending render key_q [] pending sink of
        (sink1, Some stop) \<Rightarrow> (sink1, stop)
      | (sink1, None) \<Rightarrow> (sink1, Completed))"
| "video_loop segment render key_q (frame # video) pending sink =
     (case read_batch 8 (frame # video) [] of
        (original_frames, video') \<Rightarrow>
          (case drain_pending render key_q original_frames pending sink of
             (sink1, Some stop) \<Rightarrow> (sink1, stop)
           | (sink1, None) \<Rightarrow>
               video_loop segment render key_q video'
                 (Some (segment (take 4 original_frames), segment (drop 4 original_frames)))
                 sink1))"
  by pat_completeness auto
termination
proof -
  have shorter: "length (snd (read_batch n v fs)) \<le> length v" for n and v fs :: "'f list"
    by (induction n v fs rule: read_batch.induct) auto
  have step: "length y < Suc (length video)"
    if "(x, y) = read_batch 8 (frame # video) []" for x y :: "'f list" and frame video
  proof -
    have "read_batch 8 (frame # video) [] = read_batch 7 video [frame]"
      by (simp add: eval_nat_numeral)
    then have "y = snd (read_batch 7 video [frame])"
      using that by (metis snd_conv)
    then show ?thesis
      using shorter [of 7 video "[frame]"] by simp
  qed
  show ?thesis
    by (relation "measure (\<lambda>(segment, render, key_q, video, pending, sink). length video)")
      (auto intro: step)
qed

definition glow_effect_video ::
    "bool \<Rightarrow> bool \<Rightarrow> ('f list \<Rightarrow> 'm list) \<Rightarrow> ('f \<Rightarrow> 'm \<Rightarrow> 'o) \<Rightarrow> (nat \<Rightarrow> bool) \<Rightarrow> 'f list \<Rightarrow>
     'o list \<times> video_status" where
  "glow_effect_video video_opens output_opens segment render key_q video =
     (if \<not> video_opens \<or> \<not> output_opens then ([], OpenFailed)
      else video_loop segment render key_q video None [])"
section \<open>CUDA-graph post-processing and its fallback\<close>

text \<open>
  \<open>launchArgmaxKernel\<close> reads the engine's output buffer and writes the mask buffer.
  Device memory is a store from addresses to buffers, one for the float outputs and one
  for the masks; the kernel is a parameter \<open>argmax\<close> on buffer contents. A kernel
  launched while its stream is capturing is recorded, not run; the recorded node keeps
  the two addresses it was launched with, and a graph launch runs it on those.

  \<open>checkCudaErrors\<close> is not part of the repository (the project includes the
  cuda-samples \<open>helper_cuda.h\<close>); what it does with an error code is a parameter. The
  cuda-samples helper prints the error and calls \<open>exit(EXIT_FAILURE)\<close>.
\<close>

type_synonym addr = nat

record ('out, 'mask) device =
  outputs :: "addr \<Rightarrow> 'out"
  argmax_outputs :: "addr \<Rightarrow> 'mask"

definition launchArgmaxKernel ::
    "('out \<Rightarrow> 'mask) \<Rightarrow> addr \<Rightarrow> addr \<Rightarrow> ('out, 'mask) device \<Rightarrow> ('out, 'mask) device" where
  "launchArgmaxKernel argmax d_output d_argmax_output dev =
     dev\<lparr>argmax_outputs := (argmax_outputs dev)(d_argmax_output := argmax (outputs dev d_output))\<rparr>"

datatype check_policy = ExitsProcess | ThrowsException

datatype check_result = Passed | Exit | Thrown

definition checkCudaErrors :: "check_policy \<Rightarrow> cudaError \<Rightarrow> check_result" where
  "checkCudaErrors policy code =
     (if code = cudaSuccess then Passed
      else case policy of ExitsProcess \<Rightarrow> Exit | ThrowsException \<Rightarrow> Thrown)"

text \<open>The answers of the runtime to the three capture calls and to the graph launch.\<close>

record graph_env =
  begin_capture :: cudaError
  end_capture :: cudaError
  instantiate :: cudaError
  graph_launch :: cudaError

datatype 'mask post_outcome = ProcessExited | ThreadGaveUp | Mask 'mask

subsection \<open>measure_segmentation_trt_performance_mul_concurrent_graph\<close>

text \<open>
  The \<open>try\<close> block of a worker: each of the three capture calls goes through
  \<open>checkCudaErrors\<close>; the \<open>catch (const std::exception&)\<close> sets \<open>useGraph = false\<close>.
  The result is \<open>None\<close> when the process has exited, and \<open>useGraph\<close> otherwise.
\<close>

definition try_capture_checked :: "check_policy \<Rightarrow> graph_env \<Rightarrow> bool option" where
  "try_capture_checked policy env =
     (case checkCudaErrors policy (begin_capture env) of
        Exit \<Rightarrow> None
      | Thrown \<Rightarrow> Some False
      | Passed \<Rightarrow>
         (case checkCudaErrors policy (end_capture env) of
            Exit \<Rightarrow> None
          | Thrown \<Rightarrow> Some False
          | Passed \<Rightarrow>
             (case checkCudaErrors policy (instantiate env) of
                Exit \<Rightarrow> None
              | Thrown \<Rightarrow> Some False
              | Passed \<Rightarrow> Some True)))"

text \<open>
  One worker from the warm-up to the mask buffer: two warm-up inferences, the capture
  attempt, the timed inference, then the graph launch or the eager kernel. The buffers
  are allocated once, before the capture, so the recorded node and the eager launch use
  the same two addresses. A failed \<open>enqueueV2\<close> jumps to \<open>cleanup\<close>; an exception from
  the graph launch is caught nowhere. Synchronisations and copies are taken to succeed.
\<close>

definition graph_worker_postprocess ::
    "check_policy \<Rightarrow> graph_env \<Rightarrow> bool \<Rightarrow> bool \<Rightarrow> ('out \<Rightarrow> 'mask) \<Rightarrow> addr \<Rightarrow> addr \<Rightarrow>
     ('out, 'mask) device \<Rightarrow> 'mask post_outcome" where
  "graph_worker_postprocess policy env warmup_ok enqueue_ok argmax d_output d_argmax_output dev =
     (if \<not> warmup_ok then ThreadGaveUp
      else case try_capture_checked policy env of
        None \<Rightarrow> ProcessExited
      | Some useGraph \<Rightarrow>
          if \<not> enqueue_ok then ThreadGaveUp
          else if useGraph
          then (case checkCudaErrors policy (graph_launch env) of
                  Passed \<Rightarrow> Mask (argmax_outputs
                              (launchArgmaxKernel argmax d_output d_argmax_output dev)
                              d_argmax_output)
                | _ \<Rightarrow> ProcessExited)
          else Mask (argmax_outputs (launchArgmaxKernel argmax d_output d_argmax_output dev)
                       d_argmax_output))"

subsection \<open>measure_segmentation_trt_performance_single_batch_parallel\<close>

text \<open>
  Here the worker tests each code itself and throws \<open>std::runtime_error\<close>, which its own
  \<open>catch\<close> takes. The capture is attempted for an image only while
  \<open>postGraphCaptured\<close> is false; the graph, once instantiated, is kept for the worker's
  later images, whose buffers are allocated anew. The state kept between images is the
  recorded node, if any.
\<close>

definition try_capture_thrown :: "graph_env \<Rightarrow> bool" where
  "try_capture_thrown env \<longleftrightarrow>
     begin_capture env = cudaSuccess \<and> end_capture env = cudaSuccess \<and>
     instantiate env = cudaSuccess"

definition single_batch_postprocess ::
    "graph_env \<Rightarrow> ('out \<Rightarrow> 'mask) \<Rightarrow> (addr \<times> addr) option \<Rightarrow> addr \<Rightarrow> addr \<Rightarrow>
     ('out, 'mask) device \<Rightarrow> 'mask \<times> (addr \<times> addr) option" where
  "single_batch_postprocess env argmax postprocessGraphExec d_output d_argmax_output dev =
     (let graph = (case postprocessGraphExec of
                     Some node \<Rightarrow> Some node
                   | None \<Rightarrow> if try_capture_thrown env
                             then Some (d_output, d_argmax_output) else None);
          dev' = (case graph of
                    Some (src, dst) \<Rightarrow>
                      if graph_launch env = cudaSuccess
                      then launchArgmaxKernel argmax src dst dev
                      else launchArgmaxKernel argmax d_output d_argmax_output dev
                  | None \<Rightarrow> launchArgmaxKernel argmax d_output d_argmax_output dev)
      in (argmax_outputs dev' d_argmax_output, graph))"

section \<open>Properties of glow_blow\<close>

lemma glow_blow_pixel_length:
  "length (dst_data (glow_blow_pixel msk K D p s)) = length (dst_data s)"
  by (cases p) (simp add: glow_blow_pixel_def Let_def)

lemma glow_blow_fold_length:
  "length (dst_data (fold (glow_blow_pixel msk K D) ps s)) = length (dst_data s)"
  by (induction ps arbitrary: s) (simp_all add: glow_blow_pixel_length)

lemma glow_blow_fold_nth:
  assumes "q < length (dst_data s)"
  shows "dst_data (fold (glow_blow_pixel msk K D) ps s) ! q =
         (if \<exists>(i, j) \<in> set ps. i * cols msk + j = q \<and> \<bar>uint (Mat_at msk i j) - K\<bar> < D
          then overlay_color else dst_data s ! q)"
  using assms
proof (induction ps arbitrary: s)
  case Nil
  then show ?case by simp
next
  case (Cons p ps)
  obtain i j where p: "p = (i, j)" by (cases p)
  let ?s' = "glow_blow_pixel msk K D p s"
  have len: "q < length (dst_data ?s')"
    using Cons.prems by (simp add: glow_blow_pixel_length)
  have step: "dst_data ?s' ! q =
      (if i * cols msk + j = q \<and> \<bar>uint (Mat_at msk i j) - K\<bar> < D then overlay_color
       else dst_data s ! q)"
    using Cons.prems by (auto simp: p glow_blow_pixel_def Let_def)
  show ?case
    using Cons.IH [OF len] step by (auto simp: p)
qed

lemma pixel_order_set: "set (pixel_order r c) = {0..<r} \<times> {0..<c}"
  by (simp add: pixel_order_def)

lemma flat_index_less: "i < r \<Longrightarrow> j < c \<Longrightarrow> i * c + j < r * (c::nat)"
proof -
  assume i: "i < r" and j: "j < c"
  have "i * c + j < i * c + c" using j by simp
  also have "\<dots> = Suc i * c" by simp
  also have "\<dots> \<le> r * c" using i by (intro mult_le_mono1) simp
  finally show ?thesis .
qed

lemma flat_index_inj:
  "j < c \<Longrightarrow> j' < c \<Longrightarrow> i * c + j = i' * c + j' \<Longrightarrow> i = i' \<and> j = (j'::nat)"
proof -
  assume j: "j < c" and j': "j' < c" and eq: "i * c + j = i' * c + j'"
  have "(i * c + j) div c = i" "(i' * c + j') div c = i'"
    using j j' by simp_all
  then have "i = i'" using eq by simp
  then show ?thesis using eq by simp
qed

lemma glow_blow_loop_at:
  assumes "i < rows msk" "j < cols msk"
  shows "dst_data (glow_blow_loop msk K D) ! (i * cols msk + j) =
         (if \<bar>uint (Mat_at msk i j) - K\<bar> < D then overlay_color else transparent)"
proof -
  let ?q = "i * cols msk + j"
  have q: "?q < rows msk * cols msk"
    using assms by (rule flat_index_less)
  have ex: "(\<exists>(i', j') \<in> set (pixel_order (rows msk) (cols msk)).
               i' * cols msk + j' = ?q \<and> \<bar>uint (Mat_at msk i' j') - K\<bar> < D)
            \<longleftrightarrow> \<bar>uint (Mat_at msk i j) - K\<bar> < D"
  proof
    assume "\<exists>(i', j') \<in> set (pixel_order (rows msk) (cols msk)).
               i' * cols msk + j' = ?q \<and> \<bar>uint (Mat_at msk i' j') - K\<bar> < D"
    then obtain i' j' where ij: "i' < rows msk" "j' < cols msk"
        "i' * cols msk + j' = ?q" "\<bar>uint (Mat_at msk i' j') - K\<bar> < D"
      by (auto simp: pixel_order_set)
    from flat_index_inj [OF ij(2) assms(2) ij(3)] ij(4)
    show "\<bar>uint (Mat_at msk i j) - K\<bar> < D" by simp
  next
    assume "\<bar>uint (Mat_at msk i j) - K\<bar> < D"
    then have "(i, j) \<in> set (pixel_order (rows msk) (cols msk)) \<and>
               i * cols msk + j = ?q \<and> \<bar>uint (Mat_at msk i j) - K\<bar> < D"
      using assms by (simp add: pixel_order_set)
    then show "\<exists>(i', j') \<in> set (pixel_order (rows msk) (cols msk)).
               i' * cols msk + j' = ?q \<and> \<bar>uint (Mat_at msk i' j') - K\<bar> < D"
      by blast
  qed
  show ?thesis
    unfolding glow_blow_loop_def
    by (subst glow_blow_fold_nth) (use q ex in simp_all)
qed

lemma glow_blow_loop_length:
  "length (dst_data (glow_blow_loop msk K D)) = rows msk * cols msk"
  by (simp add: glow_blow_loop_def glow_blow_fold_length)


lemma glow_blow_loop_data:
  assumes "Mat_wf msk"
  shows "dst_data (glow_blow_loop msk K D) =
         map (\<lambda>v. if \<bar>uint v - K\<bar> < D then overlay_color else transparent) (data msk)"
proof (rule nth_equalityI)
  show "length (dst_data (glow_blow_loop msk K D)) =
        length (map (\<lambda>v. if \<bar>uint v - K\<bar> < D then overlay_color else transparent) (data msk))"
    using assms by (simp add: glow_blow_loop_length Mat_wf_def)
next
  fix q assume "q < length (dst_data (glow_blow_loop msk K D))"
  then have q: "q < rows msk * cols msk"
    by (simp add: glow_blow_loop_length)
  then have c: "0 < cols msk"
    by (cases "cols msk") simp_all
  have i: "q div cols msk < rows msk"
    using q c by (simp add: less_mult_imp_div_less)
  have j: "q mod cols msk < cols msk"
    using c by simp
  have "dst_data (glow_blow_loop msk K D) ! (q div cols msk * cols msk + q mod cols msk) =
        (if \<bar>uint (Mat_at msk (q div cols msk) (q mod cols msk)) - K\<bar> < D
         then overlay_color else transparent)"
    using i j by (rule glow_blow_loop_at)
  then show "dst_data (glow_blow_loop msk K D) ! q =
        map (\<lambda>v. if \<bar>uint v - K\<bar> < D then overlay_color else transparent) (data msk) ! q"
    using q assms by (simp add: Mat_at_def Mat_wf_def)
qed

text \<open>
  C6. For every single-channel mask and every target class for which the 32-bit
  subtraction \<open>mask_pixel - param_KeyLevel\<close> is defined, \<open>glow_blow\<close> gives pixel
  \<open>(i, j)\<close> of the overlay the opaque overlay colour if and only if
  \<open>|mask[i, j] - param_KeyLevel| < Delta\<close>, and leaves every other pixel fully
  transparent (all four channels zero). For target class 56, a mask with one pixel of
  value 60 and all others 0 has exactly one overlay pixel that is not transparent when
  \<open>Delta = 20\<close> and none when \<open>Delta = 2\<close>.
\<close>

theorem glow_blow_highlight:
  assumes "Mat_wf msk" and "int32_range K" and "int32_range (255 - K)"
  shows "(\<forall>i < rows msk. \<forall>j < cols msk.
            \<exists>p. image_at4 (glow_blow (CV_8UC1 msk) dst_rgba K D) i j = Some p \<and>
                (p = overlay_color \<longleftrightarrow> \<bar>uint (Mat_at msk i j) - K\<bar> < D) \<and>
                (p \<noteq> overlay_color \<longrightarrow> p = transparent \<and> alpha p = 0) \<and>
                (p = overlay_color \<longrightarrow> alpha p = 255)) \<and>
         (data msk = replicate a 0 @ [60] @ replicate b 0 \<longrightarrow>
            non_transparent_count (glow_blow (CV_8UC1 msk) dst_rgba 56 20) = 1 \<and>
            non_transparent_count (glow_blow (CV_8UC1 msk) dst_rgba 56 2) = 0)"
proof (intro conjI allI impI)
  fix i j assume ij: "i < rows msk" "j < cols msk"
  then have ne: "\<not> Mat_empty msk"
    by (auto simp: Mat_empty_def)
  have "image_at4 (glow_blow (CV_8UC1 msk) dst_rgba K D) i j =
        Some (if \<bar>uint (Mat_at msk i j) - K\<bar> < D then overlay_color else transparent)"
    using ij ne glow_blow_loop_at [OF ij, of K D] by (simp add: Mat_at_def)
  then show "\<exists>p. image_at4 (glow_blow (CV_8UC1 msk) dst_rgba K D) i j = Some p \<and>
                (p = overlay_color \<longleftrightarrow> \<bar>uint (Mat_at msk i j) - K\<bar> < D) \<and>
                (p \<noteq> overlay_color \<longrightarrow> p = transparent \<and> alpha p = 0) \<and>
                (p = overlay_color \<longrightarrow> alpha p = 255)"
    by (simp add: overlay_color_def transparent_def)
next
  assume d: "data msk = replicate a 0 @ [60] @ replicate b 0"
  then have "length (data msk) \<noteq> 0"
    by simp
  then have ne: "\<not> Mat_empty msk"
    using assms(1) unfolding Mat_empty_def Mat_wf_def by simp
  show "non_transparent_count (glow_blow (CV_8UC1 msk) dst_rgba 56 20) = 1"
    using ne by (simp add: glow_blow_loop_data [OF assms(1)] d overlay_color_def transparent_def)
  show "non_transparent_count (glow_blow (CV_8UC1 msk) dst_rgba 56 2) = 0"
    using ne by (simp add: glow_blow_loop_data [OF assms(1)] d overlay_color_def transparent_def)
qed

theorem glow_blow_highlight_witness:
  "image_at4 (glow_blow (CV_8UC1 \<lparr>rows = 2, cols = 2, data = [0, 60, 0, 0]\<rparr>)
       (CV_8UC1 \<lparr>rows = 0, cols = 0, data = []\<rparr>) 56 20) 0 1 = Some overlay_color \<and>
   image_at4 (glow_blow (CV_8UC1 \<lparr>rows = 2, cols = 2, data = [0, 60, 0, 0]\<rparr>)
       (CV_8UC1 \<lparr>rows = 0, cols = 0, data = []\<rparr>) 56 20) 1 0 = Some transparent \<and>
   non_transparent_count (glow_blow (CV_8UC1 \<lparr>rows = 2, cols = 2, data = [0, 60, 0, 0]\<rparr>)
       (CV_8UC1 \<lparr>rows = 0, cols = 0, data = []\<rparr>) 56 20) = 1 \<and>
   non_transparent_count (glow_blow (CV_8UC1 \<lparr>rows = 2, cols = 2, data = [0, 60, 0, 0]\<rparr>)
       (CV_8UC1 \<lparr>rows = 0, cols = 0, data = []\<rparr>) 56 2) = 0"
proof -
  let ?m = "\<lparr>rows = 2, cols = 2, data = [0, 60, 0, 0 :: uchar]\<rparr>"
  have wf: "Mat_wf ?m" by (simp add: Mat_wf_def)
  have k: "int32_range 56" "int32_range (255 - 56)" by (simp_all add: int32_range_def)
  have d: "data ?m = replicate 1 0 @ [60] @ replicate 2 0" by (simp add: numeral_2_eq_2)
  note inst = glow_blow_highlight [OF wf k, of "CV_8UC1 \<lparr>rows = 0, cols = 0, data = []\<rparr>" 20 1 2]
  from inst have cnt:
    "non_transparent_count (glow_blow (CV_8UC1 ?m) (CV_8UC1 \<lparr>rows = 0, cols = 0, data = []\<rparr>) 56 20) = 1"
    "non_transparent_count (glow_blow (CV_8UC1 ?m) (CV_8UC1 \<lparr>rows = 0, cols = 0, data = []\<rparr>) 56 2) = 0"
    using d by blast+
  from inst have px: "\<forall>i < 2. \<forall>j < 2.
      \<exists>p. image_at4 (glow_blow (CV_8UC1 ?m) (CV_8UC1 \<lparr>rows = 0, cols = 0, data = []\<rparr>) 56 20) i j = Some p \<and>
          (p = overlay_color \<longleftrightarrow> \<bar>uint (Mat_at ?m i j) - 56\<bar> < 20) \<and>
          (p \<noteq> overlay_color \<longrightarrow> p = transparent \<and> alpha p = 0) \<and>
          (p = overlay_color \<longrightarrow> alpha p = 255)"
    by simp
  have a: "image_at4 (glow_blow (CV_8UC1 ?m) (CV_8UC1 \<lparr>rows = 0, cols = 0, data = []\<rparr>) 56 20) 0 1
           = Some overlay_color"
    using px [rule_format, of 0 1] by (auto simp: Mat_at_def)
  have b: "image_at4 (glow_blow (CV_8UC1 ?m) (CV_8UC1 \<lparr>rows = 0, cols = 0, data = []\<rparr>) 56 20) 1 0
           = Some transparent"
    using px [rule_format, of 1 0] by (auto simp: Mat_at_def)
  show ?thesis using a b cnt by simp
qed

section \<open>Properties of mix_images and of the mipmap buffer\<close>

lemma fold_write_nth:
  assumes "q < length d" and "\<forall>(i, j) \<in> set ps. j < c"
  shows "fold (\<lambda>(i, j) d. d[i * c + j := f i j]) ps d ! q =
         (if \<exists>(i, j) \<in> set ps. i * c + j = q then f (q div c) (q mod c) else d ! q)"
  using assms
proof (induction ps arbitrary: d)
  case Nil
  then show ?case by simp
next
  case (Cons p ps)
  obtain i j where p: "p = (i, j)" by (cases p)
  have j: "j < c" using Cons.prems(2) by (simp add: p)
  let ?d' = "d[i * c + j := f i j]"
  have len: "q < length ?d'" using Cons.prems(1) by simp
  have rest: "\<forall>(i, j) \<in> set ps. j < c" using Cons.prems(2) by simp
  have here: "i * c + j = q \<Longrightarrow> f i j = f (q div c) (q mod c)"
    using j by auto
  show ?case
    using Cons.IH [OF len rest] Cons.prems(1) here by (auto simp: p)
qed

lemma fold_write_length:
  "length (fold (\<lambda>(i, j) d. d[i * c + j := f i j]) ps d) = length d"
  by (induction ps arbitrary: d) (auto split: prod.splits)

lemma fold_pixel_write:
  assumes "length d = r * c"
  shows "fold (\<lambda>(i, j) d. d[i * c + j := f i j]) (pixel_order r c) d =
         map (\<lambda>q. f (q div c) (q mod c)) [0..<r * c]"
proof (rule nth_equalityI)
  show "length (fold (\<lambda>(i, j) d. d[i * c + j := f i j]) (pixel_order r c) d) =
        length (map (\<lambda>q. f (q div c) (q mod c)) [0..<r * c])"
    using assms by (simp add: fold_write_length)
next
  fix q assume "q < length (fold (\<lambda>(i, j) d. d[i * c + j := f i j]) (pixel_order r c) d)"
  then have q: "q < r * c" using assms by (simp add: fold_write_length)
  then have c: "0 < c" by (cases c) simp_all
  have "(q div c, q mod c) \<in> set (pixel_order r c)"
    using q c by (simp add: pixel_order_set less_mult_imp_div_less)
  moreover have "q div c * c + q mod c = q" by simp
  ultimately have ex: "\<exists>(i, j) \<in> set (pixel_order r c). i * c + j = q"
    by blast
  have "\<forall>(i, j) \<in> set (pixel_order r c). j < c"
    by (auto simp: pixel_order_set)
  from fold_write_nth [OF _ this, of q d f] q assms ex
  show "fold (\<lambda>(i, j) d. d[i * c + j := f i j]) (pixel_order r c) d ! q =
        map (\<lambda>q. f (q div c) (q mod c)) [0..<r * c] ! q"
    by simp
qed


lemma map_nth_apply: "map (\<lambda>q. f (xs ! q)) [0..<length xs] = map f xs"
  by (rule nth_equalityI) simp_all

lemma shift_255: "0 \<le> n \<Longrightarrow> n < 256 \<Longrightarrow> (n * 255) div 256 = (if n = 0 then 0 else n - (1::int))"
  by auto

lemma mix_channel_zero_weight: "mix_channel 0 s d = (if s = 0 then 0 else s - 1)"
proof (cases "s = 0")
  case True
  then show ?thesis by (simp add: mix_channel_def)
next
  case False
  have n: "0 \<le> uint s" "uint s < 256"
    using uint_lt2p [of s] by simp_all
  have nz: "uint s \<noteq> 0"
    using False by (simp add: uint_0_iff)
  have eq: "drop_bit 8 (uint s * 255) = uint s - 1"
    using shift_255 [OF n] nz by (simp add: drop_bit_eq_div)
  have "0 \<le> uint s - 1" "uint s - 1 \<le> 255"
    using n nz by arith+
  then have clamp: "min 255 (max 0 (uint s - 1)) = uint s - 1"
    by (simp only: min_def max_def if_True if_False split: if_splits) arith
  have "mix_channel 0 s d = word_of_int (uint s - 1)"
    by (simp add: mix_channel_def Let_def eq clamp)
  then show ?thesis using False by simp
qed


lemma blend_weight_zero_scale: "blend_weight a 0 = 0"
  by (simp add: blend_weight_def static_cast_int_def)

lemma mix_loop_data:
  assumes "Mat_wf src_rgba" "cols hl = cols src_rgba" "cols gray = cols src_rgba"
  shows "mix_loop src_rgba hl gray k =
         map (\<lambda>q. mix_pixel (blend_weight (data gray ! q) k) (data src_rgba ! q) (data hl ! q))
           [0..<rows src_rgba * cols src_rgba]"
proof -
  let ?c = "cols src_rgba" and ?r = "rows src_rgba"
  have len: "length (data src_rgba) = ?r * ?c"
    using assms(1) by (simp add: Mat_wf_def)
  have "mix_loop src_rgba hl gray k =
        map (\<lambda>q. mix_pixel (blend_weight (Mat_at gray (q div ?c) (q mod ?c)) k)
                    (Mat_at src_rgba (q div ?c) (q mod ?c)) (Mat_at hl (q div ?c) (q mod ?c)))
          [0..<?r * ?c]"
    unfolding mix_loop_def by (rule fold_pixel_write [OF len])
  also have "\<dots> = map (\<lambda>q. mix_pixel (blend_weight (data gray ! q) k) (data src_rgba ! q) (data hl ! q))
                    [0..<?r * ?c]"
    by (rule map_cong) (simp_all add: Mat_at_def assms(2,3))
  finally show ?thesis .
qed

lemma mix_pixel_zero_weight:
  "mix_pixel 0 (b, g, r, a) d =
     (if b = 0 then 0 else b - 1, if g = 0 then 0 else g - 1,
      if r = 0 then 0 else r - 1, if a = 0 then 0 else a - 1)"
  by (cases d) (simp add: mix_channel_zero_weight)

lemma to_bgra_dims:
  assumes "to_bgra im = Inr m"
  shows "rows m = image_rows im" "cols m = image_cols im" "image_wf im \<Longrightarrow> Mat_wf m"
  using assms by (cases im; auto simp: Mat_wf_def)+

lemma to_gray_dims: "rows (to_gray f im) = image_rows im" "cols (to_gray f im) = image_cols im"
  by (cases im; simp)+

lemma mix_images_zero_scale_any:
  assumes "to_bgra src_img = Inr src_rgba" "image_wf src_img" "\<not> image_empty src_img"
    and "image_size dst = image_size src_img" "image_size mip = image_size src_img"
    and "to_bgra dst = Inr hl"
  shows "mix_images bgr2gray src_img dst mip 0 =
           Inr \<lparr>rows = image_rows src_img, cols = image_cols src_img,
                data = map (\<lambda>(b, g, r, a).
                   (if b = 0 then 0 else b - 1, if g = 0 then 0 else g - 1,
                    if r = 0 then 0 else r - 1, if a = 0 then 0 else a - 1)) (data src_rgba)\<rparr>"
proof -
  have wf: "Mat_wf src_rgba" and r: "rows src_rgba = image_rows src_img"
    and c: "cols src_rgba = image_cols src_img"
    using to_bgra_dims [OF assms(1)] assms(2) by simp_all
  have chl: "cols hl = cols src_rgba"
    using to_bgra_dims(2) [OF assms(6)] assms(4) c by (simp add: image_size_def)
  have cg: "cols (to_gray bgr2gray mip) = cols src_rgba"
    using assms(5) c by (simp add: to_gray_dims image_size_def)
  have ne: "\<not> image_empty dst" "\<not> image_empty mip"
    using assms(3,4,5) by (simp_all add: image_empty_def image_size_def)
  have len: "length (data src_rgba) = rows src_rgba * cols src_rgba"
    using wf by (simp add: Mat_wf_def)
  have "mix_loop src_rgba hl (to_gray bgr2gray mip) 0 =
        map (\<lambda>q. mix_pixel (blend_weight (data (to_gray bgr2gray mip) ! q) 0)
                    (data src_rgba ! q) (data hl ! q)) [0..<rows src_rgba * cols src_rgba]"
    by (rule mix_loop_data [OF wf chl cg])
  also have "\<dots> = map (\<lambda>q. (\<lambda>(b, g, r, a).
                   (if b = 0 then 0 else b - 1, if g = 0 then 0 else g - 1,
                    if r = 0 then 0 else r - 1, if a = 0 then 0 else a - 1)) (data src_rgba ! q))
                 [0..<length (data src_rgba)]"
    unfolding len
    by (rule map_cong) (simp_all add: blend_weight_zero_scale mix_pixel_zero_weight split: prod.splits)
  also have "\<dots> = map (\<lambda>(b, g, r, a).
                   (if b = 0 then 0 else b - 1, if g = 0 then 0 else g - 1,
                    if r = 0 then 0 else r - 1, if a = 0 then 0 else a - 1)) (data src_rgba)"
    by (rule map_nth_apply)
  finally have loop: "mix_loop src_rgba hl (to_gray bgr2gray mip) 0 =
        map (\<lambda>(b, g, r, a).
                   (if b = 0 then 0 else b - 1, if g = 0 then 0 else g - 1,
                    if r = 0 then 0 else r - 1, if a = 0 then 0 else a - 1)) (data src_rgba)" .
  show ?thesis
    using assms(1,3,4,5,6) ne by (simp add: mix_images_def loop r c)
qed


text \<open>
  C1 (amended). For every non-empty frame of three or four channels, the overlay that
  \<open>glow_blow\<close> computes from a mask of the frame's dimensions and every mipmap result
  of the frame's dimensions, \<open>mix_images\<close> with scale 0 returns an image of the frame's
  dimensions to which neither the overlay nor the mipmap result contributes, and in
  which every channel \<open>c\<close> of the frame (as BGRA, alpha 255 for a 3-channel frame) has
  become \<open>(c * 255) >> 8\<close>: \<open>c - 1\<close> for \<open>c \<ge> 1\<close> and 0 for \<open>c = 0\<close>.
\<close>

theorem highlight_blend_zero_scale:
  assumes "to_bgra frame = Inr frame_rgba" and "image_wf frame" and "\<not> image_empty frame"
    and "Mat_wf msk" and "rows msk = image_rows frame" and "cols msk = image_cols frame"
    and "image_size mipmap_result = image_size frame"
    and "int32_range K" and "int32_range (255 - K)"
  shows "mix_images bgr2gray frame (glow_blow (CV_8UC1 msk) dst_rgba K D) mipmap_result 0 =
           Inr \<lparr>rows = image_rows frame, cols = image_cols frame,
                data = map (\<lambda>(b, g, r, a).
                   (if b = 0 then 0 else b - 1, if g = 0 then 0 else g - 1,
                    if r = 0 then 0 else r - 1, if a = 0 then 0 else a - 1)) (data frame_rgba)\<rparr>"
proof -
  have ne: "\<not> Mat_empty msk"
    using assms(3,5,6) by (simp add: Mat_empty_def image_empty_def)
  let ?ov = "\<lparr>rows = rows msk, cols = cols msk, data = dst_data (glow_blow_loop msk K D)\<rparr>"
  have ov: "glow_blow (CV_8UC1 msk) dst_rgba K D = CV_8UC4 ?ov"
    using ne by simp
  have sz: "image_size (CV_8UC4 ?ov) = image_size frame"
    using assms(5,6) by (simp add: image_size_def)
  have hl: "to_bgra (CV_8UC4 ?ov) = Inr ?ov"
    by simp
  show ?thesis
    unfolding ov
    by (rule mix_images_zero_scale_any [OF assms(1,2,3) sz assms(7) hl])
qed

theorem highlight_blend_zero_scale_witness:
  "mix_images cv_bgr2gray (CV_8UC3 \<lparr>rows = 1, cols = 1, data = [(255, 7, 0)]\<rparr>)
     (glow_blow (CV_8UC1 \<lparr>rows = 1, cols = 1, data = [60]\<rparr>)
        (CV_8UC1 \<lparr>rows = 0, cols = 0, data = []\<rparr>) 56 20)
     (CV_8UC4 \<lparr>rows = 1, cols = 1, data = [(255, 255, 255, 255)]\<rparr>) 0
   = Inr \<lparr>rows = 1, cols = 1, data = [(254, 6, 0, 254)]\<rparr>"
proof -
  let ?frame = "CV_8UC3 \<lparr>rows = 1, cols = 1, data = [(255, 7, 0)]\<rparr>"
  have 1: "to_bgra ?frame = Inr \<lparr>rows = 1, cols = 1, data = [(255, 7, 0, 255)]\<rparr>"
    by simp
  have 2: "image_wf ?frame" "\<not> image_empty ?frame"
    by (simp_all add: Mat_wf_def image_empty_def)
  have 3: "Mat_wf \<lparr>rows = 1, cols = 1, data = [60 :: uchar]\<rparr>"
    "rows \<lparr>rows = 1, cols = 1, data = [60 :: uchar]\<rparr> = image_rows ?frame"
    "cols \<lparr>rows = 1, cols = 1, data = [60 :: uchar]\<rparr> = image_cols ?frame"
    by (simp_all add: Mat_wf_def)
  have 4: "image_size (CV_8UC4 \<lparr>rows = 1, cols = 1, data = [(255, 255, 255, 255)]\<rparr>) = image_size ?frame"
    by (simp add: image_size_def)
  have 5: "int32_range 56" "int32_range (255 - 56)"
    by (simp_all add: int32_range_def)
  show ?thesis
    using highlight_blend_zero_scale [OF 1 2 3 4 5, of cv_bgr2gray "CV_8UC1 \<lparr>rows = 0, cols = 0, data = []\<rparr>" 20]
    by simp
qed

theorem highlight_blend_zero_scale_not_identity:
  "mix_images cv_bgr2gray (CV_8UC3 \<lparr>rows = 1, cols = 1, data = [(255, 255, 255)]\<rparr>)
     (glow_blow (CV_8UC1 \<lparr>rows = 1, cols = 1, data = [60]\<rparr>)
        (CV_8UC1 \<lparr>rows = 0, cols = 0, data = []\<rparr>) 56 20)
     (CV_8UC4 \<lparr>rows = 1, cols = 1, data = [(255, 255, 255, 255)]\<rparr>) 0
   = Inr \<lparr>rows = 1, cols = 1, data = [(254, 254, 254, 254)]\<rparr> \<and>
   to_bgra (CV_8UC3 \<lparr>rows = 1, cols = 1, data = [(255, 255, 255)]\<rparr>)
   = Inr \<lparr>rows = 1, cols = 1, data = [(255, 255, 255, 255)]\<rparr> \<and>
   (254 :: uchar) \<noteq> 255"
  by code_simp

text \<open>
  C2. At a mipmap luma of 255 and the scale 600 that
  \<open>glow_effect_video_single_batch_parallel\<close> sets, \<open>(255 * 600) >> 8\<close> is 597;
  \<open>mix_images\<close> keeps its low eight bits, 85, where the specified weight is the clamped
  255, and the blended pixel differs accordingly.
\<close>

theorem mix_images_weight_wraps:
  "blend_weight 255 600 = 85 \<and> spec_blend_weight 255 600 = 255 \<and>
   mix_images cv_bgr2gray (CV_8UC3 \<lparr>rows = 1, cols = 1, data = [(0, 0, 0)]\<rparr>)
     (glow_blow (CV_8UC1 \<lparr>rows = 1, cols = 1, data = [56]\<rparr>)
        (CV_8UC1 \<lparr>rows = 0, cols = 0, data = []\<rparr>) 56 10)
     (CV_8UC4 \<lparr>rows = 1, cols = 1, data = [(255, 255, 255, 255)]\<rparr>) 600
   = Inr \<lparr>rows = 1, cols = 1, data = [(42, 0, 42, 254)]\<rparr> \<and>
   mix_pixel (spec_blend_weight 255 600) (0, 0, 0, 255) overlay_color = (127, 0, 127, 254)"
  by code_simp

theorem mix_images_weight_wraps_witness:
  "blend_weight 255 600 \<noteq> spec_blend_weight 255 600 \<and>
   mix_images cv_bgr2gray (CV_8UC3 \<lparr>rows = 1, cols = 1, data = [(0, 0, 0)]\<rparr>)
     (glow_blow (CV_8UC1 \<lparr>rows = 1, cols = 1, data = [56]\<rparr>)
        (CV_8UC1 \<lparr>rows = 0, cols = 0, data = []\<rparr>) 56 10)
     (CV_8UC4 \<lparr>rows = 1, cols = 1, data = [(255, 255, 255, 255)]\<rparr>) 600
   \<noteq> Inr \<lparr>rows = 1, cols = 1, data = [(127, 0, 127, 254)]\<rparr>"
  using mix_images_weight_wraps by simp

lemma mipmap_src_img_data:
  assumes "Mat_wf msk"
  shows "mipmap_src_img msk K = map (mask_to_rgba K) (data msk)"
proof -
  have len: "length (data msk) = rows msk * cols msk"
    using assms by (simp add: Mat_wf_def)
  have "mipmap_src_img msk K =
        map (\<lambda>q. mask_to_rgba K (Mat_at msk (q div cols msk) (q mod cols msk)))
          [0..<rows msk * cols msk]"
    unfolding mipmap_src_img_def by (rule fold_pixel_write) simp
  also have "\<dots> = map (\<lambda>q. mask_to_rgba K (data msk ! q)) [0..<length (data msk)]"
    unfolding len by (rule map_cong) (simp_all add: Mat_at_def)
  also have "\<dots> = map (mask_to_rgba K) (data msk)"
    by (rule map_nth_apply)
  finally show ?thesis .
qed

lemma convert_mask_to_rgba_buffer_data:
  assumes "Mat_wf msk" "length dst = rows msk * cols msk"
  shows "convert_mask_to_rgba_buffer msk dst (cols msk) (rows msk) K =
         Some (map (mask_to_rgba K) (data msk))"
proof -
  have len: "length (data msk) = rows msk * cols msk"
    using assms by (simp add: Mat_wf_def)
  have "fold (\<lambda>(i, j) d. d[i * cols msk + j := mask_to_rgba K (Mat_at msk i j)])
          (pixel_order (rows msk) (cols msk)) dst =
        map (\<lambda>q. mask_to_rgba K (Mat_at msk (q div cols msk) (q mod cols msk)))
          [0..<rows msk * cols msk]"
    by (rule fold_pixel_write [OF assms(2)])
  also have "\<dots> = map (\<lambda>q. mask_to_rgba K (data msk ! q)) [0..<length (data msk)]"
    unfolding len by (rule map_cong) (simp_all add: Mat_at_def)
  also have "\<dots> = map (mask_to_rgba K) (data msk)"
    by (rule map_nth_apply)
  finally show ?thesis
    using assms by (simp add: convert_mask_to_rgba_buffer_def)
qed

text \<open>
  C10. The RGBA buffer given to the mipmap filter is built by exact equality: the
  buffer that \<open>apply_mipmap_async\<close> fills, which is also what
  \<open>convert_mask_to_rgba_buffer\<close> writes, holds at pixel \<open>(i, j)\<close> the opaque grey
  \<open>(v, v, v, 255)\<close> if the mask value \<open>v\<close> equals the target class and \<open>(0, 0, 0, 0)\<close>
  otherwise, also where \<open>v\<close> is within a tolerance \<open>Delta\<close> of the target. Hence two
  masks that have the target class at the same pixels give the filter the same input
  and get the same mipmap result, whatever their other values are.
\<close>

theorem mipmap_buffer_exact_match:
  assumes "Mat_wf msk" and "length dst = rows msk * cols msk"
    and "Mat_wf msk'" and "rows msk' = rows msk" and "cols msk' = cols msk"
  shows "convert_mask_to_rgba_buffer msk dst (cols msk) (rows msk) K = Some (mipmap_src_img msk K) \<and>
         (\<forall>i < rows msk. \<forall>j < cols msk.
            mipmap_src_img msk K ! (i * cols msk + j) =
              (if uint (Mat_at msk i j) = K
               then (Mat_at msk i j, Mat_at msk i j, Mat_at msk i j, 255) else (0, 0, 0, 0)) \<and>
            (uint (Mat_at msk i j) \<noteq> K \<and> \<bar>uint (Mat_at msk i j) - K\<bar> < Delta \<longrightarrow>
               mipmap_src_img msk K ! (i * cols msk + j) = (0, 0, 0, 0))) \<and>
         ((\<forall>q < rows msk * cols msk. (uint (data msk ! q) = K) = (uint (data msk' ! q) = K)) \<longrightarrow>
            apply_mipmap_async filter_mipmap_async msk scale K =
            apply_mipmap_async filter_mipmap_async msk' scale K)"
proof (intro conjI allI impI)
  show "convert_mask_to_rgba_buffer msk dst (cols msk) (rows msk) K = Some (mipmap_src_img msk K)"
    using assms(1,2) by (simp add: convert_mask_to_rgba_buffer_data mipmap_src_img_data)
next
  fix i j assume ij: "i < rows msk" "j < cols msk"
  have "i * cols msk + j < length (data msk)"
    using flat_index_less [OF ij] assms(1) by (simp add: Mat_wf_def)
  then have px: "mipmap_src_img msk K ! (i * cols msk + j) = mask_to_rgba K (Mat_at msk i j)"
    using assms(1) by (simp add: mipmap_src_img_data Mat_at_def)
  show "mipmap_src_img msk K ! (i * cols msk + j) =
          (if uint (Mat_at msk i j) = K
           then (Mat_at msk i j, Mat_at msk i j, Mat_at msk i j, 255) else (0, 0, 0, 0))"
    using px by (simp add: mask_to_rgba_def)
  show "mipmap_src_img msk K ! (i * cols msk + j) = (0, 0, 0, 0)"
    if "uint (Mat_at msk i j) \<noteq> K \<and> \<bar>uint (Mat_at msk i j) - K\<bar> < Delta"
    using px that by (simp add: mask_to_rgba_def)
next
  assume same: "\<forall>q < rows msk * cols msk. (uint (data msk ! q) = K) = (uint (data msk' ! q) = K)"
  have len: "length (data msk) = rows msk * cols msk" "length (data msk') = rows msk * cols msk"
    using assms(1,3,4,5) by (simp_all add: Mat_wf_def)
  have "map (mask_to_rgba K) (data msk) = map (mask_to_rgba K) (data msk')"
  proof (rule nth_equalityI)
    show "length (map (mask_to_rgba K) (data msk)) = length (map (mask_to_rgba K) (data msk'))"
      using len by simp
  next
    fix q assume "q < length (map (mask_to_rgba K) (data msk))"
    then have q: "q < rows msk * cols msk" using len by simp
    have "mask_to_rgba K (data msk ! q) = mask_to_rgba K (data msk' ! q)"
    proof (cases "uint (data msk ! q) = K")
      case True
      then have "uint (data msk' ! q) = K" using same q by simp
      then have "data msk' ! q = data msk ! q" using True by (simp add: word_uint_eq_iff)
      then show ?thesis by simp
    next
      case False
      then have "uint (data msk' ! q) \<noteq> K" using same q by simp
      then show ?thesis using False by (simp add: mask_to_rgba_def)
    qed
    then show "map (mask_to_rgba K) (data msk) ! q = map (mask_to_rgba K) (data msk') ! q"
      using q len by simp
  qed
  then show "apply_mipmap_async filter_mipmap_async msk scale K =
             apply_mipmap_async filter_mipmap_async msk' scale K"
    using assms by (simp add: apply_mipmap_async_def mipmap_src_img_data)
qed


theorem mipmap_buffer_exact_match_witness:
  "convert_mask_to_rgba_buffer \<lparr>rows = 1, cols = 2, data = [56, 60]\<rparr>
       [(9, 9, 9, 9), (9, 9, 9, 9)] 2 1 56
     = Some (mipmap_src_img \<lparr>rows = 1, cols = 2, data = [56, 60]\<rparr> 56) \<and>
   mipmap_src_img \<lparr>rows = 1, cols = 2, data = [56, 60]\<rparr> 56 ! 0 = (56, 56, 56, 255) \<and>
   mipmap_src_img \<lparr>rows = 1, cols = 2, data = [56, 60]\<rparr> 56 ! 1 = (0, 0, 0, 0) \<and>
   apply_mipmap_async (\<lambda>w h s b. b) \<lparr>rows = 1, cols = 2, data = [56, 60]\<rparr> 1 56 =
   apply_mipmap_async (\<lambda>w h s b. b) \<lparr>rows = 1, cols = 2, data = [56, 0]\<rparr> 1 56"
proof -
  let ?m = "\<lparr>rows = 1, cols = 2, data = [56, 60 :: uchar]\<rparr>"
  let ?m' = "\<lparr>rows = 1, cols = 2, data = [56, 0 :: uchar]\<rparr>"
  have 1: "Mat_wf ?m" "Mat_wf ?m'" by (simp_all add: Mat_wf_def)
  have 2: "length [(9, 9, 9, 9), (9, 9, 9, 9) :: uchar4] = rows ?m * cols ?m" by simp
  have 3: "rows ?m' = rows ?m" "cols ?m' = cols ?m" by simp_all
  have same: "\<forall>q < rows ?m * cols ?m. (uint (data ?m ! q) = 56) = (uint (data ?m' ! q) = 56)"
  proof (intro allI impI)
    fix q assume "q < rows ?m * cols ?m"
    then have "q = 0 \<or> q = 1" by auto
    then show "(uint (data ?m ! q) = 56) = (uint (data ?m' ! q) = 56)" by auto
  qed
  note inst = mipmap_buffer_exact_match [OF 1(1) 2 1(2) 3, of 56 20 "\<lambda>w h s b. b" 1]
  from inst have a: "convert_mask_to_rgba_buffer ?m [(9, 9, 9, 9), (9, 9, 9, 9)] (cols ?m) (rows ?m) 56
      = Some (mipmap_src_img ?m 56)"
    by blast
  from inst have px: "\<forall>i < rows ?m. \<forall>j < cols ?m.
            mipmap_src_img ?m 56 ! (i * cols ?m + j) =
              (if uint (Mat_at ?m i j) = 56
               then (Mat_at ?m i j, Mat_at ?m i j, Mat_at ?m i j, 255) else (0, 0, 0, 0)) \<and>
            (uint (Mat_at ?m i j) \<noteq> 56 \<and> \<bar>uint (Mat_at ?m i j) - 56\<bar> < 20 \<longrightarrow>
               mipmap_src_img ?m 56 ! (i * cols ?m + j) = (0, 0, 0, 0))"
    by blast
  from inst same have c: "apply_mipmap_async (\<lambda>w h s b. b) ?m 1 56 =
      apply_mipmap_async (\<lambda>w h s b. b) ?m' 1 56"
    by blast
  have b0: "mipmap_src_img ?m 56 ! 0 = (56, 56, 56, 255)"
    using px [rule_format, of 0 0] by (simp add: Mat_at_def)
  have b1: "mipmap_src_img ?m 56 ! 1 = (0, 0, 0, 0)"
    using px [rule_format, of 0 1] by (simp add: Mat_at_def)
  show ?thesis
    using a b0 b1 c by simp
qed

section \<open>Properties of the triple-buffered pipeline\<close>

lemma slot_distinct: "k < n \<Longrightarrow> n \<le> k + 2 \<Longrightarrow> k mod 3 \<noteq> n mod (3::nat)"
  by presburger

lemma pipeline_inv_init:
  "pipeline_inv flt query ms w h sc K 0 0 (pipeline_init (length ms) w h)"
  by (simp add: pipeline_inv_def pipeline_init_def)

lemma pipeline_invD:
  assumes "pipeline_inv flt query ms w h sc K a n st"
  shows "length (tripleSrc st) = 3" "\<And>b. b < 3 \<Longrightarrow> length (tripleSrc st ! b) = w * h"
    "length (tripleDst st) = 3" "\<And>b. b < 3 \<Longrightarrow> length (tripleDst st ! b) = w * h"
    "length (outputImages st) = length ms"
    "\<And>k. k < a \<Longrightarrow> a \<le> k + 3 \<Longrightarrow> tripleDst st ! (k mod 3) = apply_mipmap_async flt (ms ! k) sc K"
    "\<And>k. k < length ms \<Longrightarrow> outputImages st ! k =
        (if k + 2 < n \<and> query k = cudaSuccess
         then CV_8UC4 \<lparr>rows = h, cols = w, data = apply_mipmap_async flt (ms ! k) sc K\<rparr>
         else Mat_default)"
    "\<And>s b k. Issued s b k \<in> set (trace st) \<longleftrightarrow> k < a \<and> s = k \<and> b = k mod 3"
    "\<And>s b k. Harvested s b k \<in> set (trace st) \<longleftrightarrow>
        k < length ms \<and> k + 2 < n \<and> query k = cudaSuccess \<and> s = k + 2 \<and> b = k mod 3"
  using assms by (simp_all add: pipeline_inv_def)

lemma pipeline_issue_inv:
  assumes ok: "pipeline_inputs_ok flt query ms w h sc K"
    and inv: "pipeline_inv flt query ms w h sc K n n' st" and n: "n < length ms"
  shows "\<exists>st'. pipeline_issue flt ms w h sc K n st = Inr st' \<and>
               pipeline_inv flt query ms w h sc K (Suc n) n' st'"
proof -
  let ?b = "n mod 3"
  let ?R = "apply_mipmap_async flt (ms ! n) sc K"
  have b: "?b < 3" by simp
  have m: "Mat_wf (ms ! n)" "rows (ms ! n) = h" "cols (ms ! n) = w"
      "length (flt w h sc (mipmap_src_img (ms ! n) K)) = w * h"
    using ok n by (auto simp: pipeline_inputs_ok_def)
  note D = pipeline_invD [OF inv]
  have lens: "length (tripleSrc st ! ?b) = w * h" "length (tripleDst st ! ?b) = w * h"
    using D(2,4) b by simp_all
  have "length (tripleSrc st ! ?b) = rows (ms ! n) * cols (ms ! n)"
    using lens m by (simp add: mult.commute)
  from convert_mask_to_rgba_buffer_data [OF m(1) this, of K]
  have conv: "convert_mask_to_rgba_buffer (ms ! n) (tripleSrc st ! ?b) w h K =
        Some (map (mask_to_rgba K) (data (ms ! n)))"
    using m by simp
  have srclen: "length (map (mask_to_rgba K) (data (ms ! n))) = w * h"
    using m by (simp add: Mat_wf_def mult.commute)
  have Rlen: "length ?R = w * h"
    using m by (simp add: apply_mipmap_async_def)
  have wr: "write_dst ?R (tripleDst st ! ?b) = Some ?R"
    using Rlen lens by (simp add: write_dst_def)
  let ?st' = "st\<lparr>tripleSrc := (tripleSrc st)[?b := map (mask_to_rgba K) (data (ms ! n))],
                 tripleDst := (tripleDst st)[?b := ?R],
                 trace := trace st @ [Issued n ?b n]\<rparr>"
  have step: "pipeline_issue flt ms w h sc K n st = Inr ?st'"
    by (simp add: pipeline_issue_def Let_def conv wr)
  have slot: "tripleDst ?st' ! (k mod 3) = apply_mipmap_async flt (ms ! k) sc K"
    if "k < Suc n" "Suc n \<le> k + 3" for k
  proof (cases "k = n")
    case True
    then show ?thesis using D(3) by simp
  next
    case False
    then have k: "k < n" "n \<le> k + 2" using that by simp_all
    then have "k mod 3 \<noteq> n mod 3" by (rule slot_distinct)
    moreover have "tripleDst st ! (k mod 3) = apply_mipmap_async flt (ms ! k) sc K"
      using D(6) [of k] k by simp
    ultimately show ?thesis by simp
  qed
  have "pipeline_inv flt query ms w h sc K (Suc n) n' ?st'"
    unfolding pipeline_inv_def
  proof (intro conjI allI impI)
    show "length (tripleSrc ?st') = 3" "length (tripleDst ?st') = 3"
         "length (outputImages ?st') = length ms"
      using D(1,3,5) by simp_all
    show "length (tripleSrc ?st' ! b) = w * h" if "b < 3" for b
      using D(1) D(2) [OF that] that srclen by (cases "b = ?b") simp_all
    show "length (tripleDst ?st' ! b) = w * h" if "b < 3" for b
      using D(3) D(4) [OF that] that Rlen by (cases "b = ?b") simp_all
    show "tripleDst ?st' ! (k mod 3) = apply_mipmap_async flt (ms ! k) sc K"
      if "k < Suc n \<and> Suc n \<le> k + 3" for k
      using that slot by blast
    show "outputImages ?st' ! k =
        (if k + 2 < n' \<and> query k = cudaSuccess
         then CV_8UC4 \<lparr>rows = h, cols = w, data = apply_mipmap_async flt (ms ! k) sc K\<rparr>
         else Mat_default)" if "k < length ms" for k
      using D(7) [OF that] by simp
    show "Issued s b k \<in> set (trace ?st') \<longleftrightarrow> k < Suc n \<and> s = k \<and> b = k mod 3" for s b k
      using D(8) [of s b k] by (auto simp: less_Suc_eq)
    show "Harvested s b k \<in> set (trace ?st') \<longleftrightarrow>
        k < length ms \<and> k + 2 < n' \<and> query k = cudaSuccess \<and> s = k + 2 \<and> b = k mod 3" for s b k
      using D(9) [of s b k] by simp
  qed
  with step show ?thesis by blast
qed


lemma pipeline_inv_skip:
  assumes inv: "pipeline_inv flt query ms w h sc K a n st" and "\<not> (2 \<le> n \<and> n - 2 < length ms)"
  shows "pipeline_inv flt query ms w h sc K a (Suc n) st"
proof -
  have lt: "k + 2 < Suc n \<longleftrightarrow> k + 2 < n" if "k < length ms" for k
    using that assms(2) by auto
  show ?thesis
    unfolding pipeline_inv_def
  proof (intro conjI allI impI)
    show "length (tripleSrc st) = 3" "length (tripleDst st) = 3"
         "length (outputImages st) = length ms"
      using pipeline_invD(1,3,5) [OF inv] by simp_all
    show "length (tripleSrc st ! b) = w * h" if "b < 3" for b
      using pipeline_invD(2) [OF inv that] .
    show "length (tripleDst st ! b) = w * h" if "b < 3" for b
      using pipeline_invD(4) [OF inv that] .
    show "tripleDst st ! (k mod 3) = apply_mipmap_async flt (ms ! k) sc K"
      if "k < a \<and> a \<le> k + 3" for k
      using pipeline_invD(6) [OF inv] that by blast
    show "outputImages st ! k =
          (if k + 2 < Suc n \<and> query k = cudaSuccess
           then CV_8UC4 \<lparr>rows = h, cols = w, data = apply_mipmap_async flt (ms ! k) sc K\<rparr>
           else Mat_default)" if "k < length ms" for k
      using pipeline_invD(7) [OF inv that] lt [OF that] by simp
    show "Issued s b k \<in> set (trace st) \<longleftrightarrow> k < a \<and> s = k \<and> b = k mod 3" for s b k
      using pipeline_invD(8) [OF inv] .
    show "Harvested s b k \<in> set (trace st) \<longleftrightarrow>
          k < length ms \<and> k + 2 < Suc n \<and> query k = cudaSuccess \<and> s = k + 2 \<and> b = k mod 3" for s b k
      using pipeline_invD(9) [OF inv, of s b k] lt [of k] by blast
  qed
qed

lemma pipeline_harvest_inv:
  assumes ok: "pipeline_inputs_ok flt query ms w h sc K"
    and inv: "pipeline_inv flt query ms w h sc K a n st"
    and n: "2 \<le> n" "n - 2 < length ms" and a: "n - 2 < a" "a \<le> n + 1"
  shows "\<exists>st'. pipeline_harvest query w h n st = Inr st' \<and>
               pipeline_inv flt query ms w h sc K a (Suc n) st'"
proof -
  define k where "k = n - 2"
  have nk: "n - 2 = k" "n = k + 2" "k < length ms" "k < a" "a \<le> k + 3"
    using n a unfolding k_def by arith+
  let ?R = "apply_mipmap_async flt (ms ! k) sc K"
  note D = pipeline_invD [OF inv]
  have "ms ! k \<in> set ms"
    using nk(3) by simp
  then have "length (flt w h sc (mipmap_src_img (ms ! k) K)) = w * h"
      "rows (ms ! k) = h" "cols (ms ! k) = w"
    using ok unfolding pipeline_inputs_ok_def by blast+
  then have Rlen: "length ?R = w * h"
    by (simp add: apply_mipmap_async_def)
  have slot: "tripleDst st ! (k mod 3) = ?R"
    using nk(4,5) by (rule D(6))
  have lt: "j + 2 < Suc n \<longleftrightarrow> j + 2 < n \<or> j = k" for j
    unfolding nk(2) by auto
  have nlt: "\<not> k + 2 < n"
    unfolding nk(2) by simp
  have qk: "query k \<noteq> cudaErrorOther"
    using ok nk(3) unfolding pipeline_inputs_ok_def by blast
  show ?thesis
  proof (cases "query k")
    case cudaSuccess
    let ?st' = "st\<lparr>outputImages := (outputImages st)[k :=
                     CV_8UC4 \<lparr>rows = h, cols = w, data = ?R\<rparr>],
                   trace := trace st @ [Harvested n (k mod 3) k]\<rparr>"
    have step: "pipeline_harvest query w h n st = Inr ?st'"
      unfolding pipeline_harvest_def Let_def nk(1) cudaSuccess slot
      using Rlen by simp
    have "pipeline_inv flt query ms w h sc K a (Suc n) ?st'"
      unfolding pipeline_inv_def
    proof (intro conjI allI impI)
      show "length (tripleSrc ?st') = 3" "length (tripleDst ?st') = 3"
           "length (outputImages ?st') = length ms"
        using D(1,3,5) by simp_all
      show "length (tripleSrc ?st' ! b) = w * h" if "b < 3" for b
        using D(2) [OF that] by simp
      show "length (tripleDst ?st' ! b) = w * h" if "b < 3" for b
        using D(4) [OF that] by simp
      show "tripleDst ?st' ! (j mod 3) = apply_mipmap_async flt (ms ! j) sc K"
        if "j < a \<and> a \<le> j + 3" for j
        using D(6) [of j] that by simp
      show "outputImages ?st' ! j =
          (if j + 2 < Suc n \<and> query j = cudaSuccess
           then CV_8UC4 \<lparr>rows = h, cols = w, data = apply_mipmap_async flt (ms ! j) sc K\<rparr>
           else Mat_default)" if "j < length ms" for j
      proof (cases "j = k")
        case True
        have "outputImages ?st' ! k = CV_8UC4 \<lparr>rows = h, cols = w, data = ?R\<rparr>"
          using D(5) nk(3) by simp
        moreover have "k + 2 < Suc n" unfolding nk(2) by simp
        ultimately show ?thesis using True cudaSuccess by simp
      next
        case False
        then have "j + 2 < Suc n \<longleftrightarrow> j + 2 < n" using lt [of j] by blast
        moreover have "outputImages ?st' ! j = outputImages st ! j"
          using False by simp
        ultimately show ?thesis using D(7) [OF that] by simp
      qed
      show "Issued s b j \<in> set (trace ?st') \<longleftrightarrow> j < a \<and> s = j \<and> b = j mod 3" for s b j
        using D(8) [of s b j] by simp
      show "Harvested s b j \<in> set (trace ?st') \<longleftrightarrow>
          j < length ms \<and> j + 2 < Suc n \<and> query j = cudaSuccess \<and> s = j + 2 \<and> b = j mod 3" for s b j
      proof (cases "j = k")
        case True
        have old: "Harvested s b k \<notin> set (trace st)"
          using D(9) [of s b k] nlt by simp
        have "Harvested s b k \<in> set (trace ?st') \<longleftrightarrow> s = n \<and> b = k mod 3"
          using old by auto
        also have "\<dots> \<longleftrightarrow> k < length ms \<and> k + 2 < Suc n \<and> query k = cudaSuccess \<and>
                            s = k + 2 \<and> b = k mod 3"
          using nk(3) cudaSuccess unfolding nk(2) by simp
        finally show ?thesis unfolding True .
      next
        case False
        then have "j + 2 < Suc n \<longleftrightarrow> j + 2 < n" using lt [of j] by blast
        moreover have "Harvested s b j \<in> set (trace ?st') \<longleftrightarrow> Harvested s b j \<in> set (trace st)"
          using False by simp
        ultimately show ?thesis using D(9) [of s b j] by simp
      qed
    qed
    with step show ?thesis by blast
  next
    case cudaErrorNotReady
    have step: "pipeline_harvest query w h n st = Inr st"
      unfolding pipeline_harvest_def Let_def nk(1) cudaErrorNotReady by simp
    have eq: "(j + 2 < Suc n \<and> query j = cudaSuccess) \<longleftrightarrow> (j + 2 < n \<and> query j = cudaSuccess)" for j
      using lt [of j] cudaErrorNotReady by auto
    have "pipeline_inv flt query ms w h sc K a (Suc n) st"
      unfolding pipeline_inv_def
    proof (intro conjI allI impI)
      show "length (tripleSrc st) = 3" "length (tripleDst st) = 3"
           "length (outputImages st) = length ms"
        using D(1,3,5) by simp_all
      show "length (tripleSrc st ! b) = w * h" if "b < 3" for b
        using D(2) [OF that] .
      show "length (tripleDst st ! b) = w * h" if "b < 3" for b
        using D(4) [OF that] .
      show "tripleDst st ! (j mod 3) = apply_mipmap_async flt (ms ! j) sc K"
        if "j < a \<and> a \<le> j + 3" for j
        using D(6) [of j] that by blast
      show "outputImages st ! j =
            (if j + 2 < Suc n \<and> query j = cudaSuccess
             then CV_8UC4 \<lparr>rows = h, cols = w, data = apply_mipmap_async flt (ms ! j) sc K\<rparr>
             else Mat_default)" if "j < length ms" for j
        using D(7) [OF that] eq [of j] by simp
      show "Issued s b j \<in> set (trace st) \<longleftrightarrow> j < a \<and> s = j \<and> b = j mod 3" for s b j
        using D(8) .
      show "Harvested s b j \<in> set (trace st) \<longleftrightarrow>
            j < length ms \<and> j + 2 < Suc n \<and> query j = cudaSuccess \<and> s = j + 2 \<and> b = j mod 3" for s b j
        using D(9) [of s b j] eq [of j] by blast
    qed
    with step show ?thesis by blast
  next
    case cudaErrorOther
    then show ?thesis using qk by simp
  qed
qed

lemma pipeline_step_inv:
  assumes ok: "pipeline_inputs_ok flt query ms w h sc K"
    and inv: "pipeline_inv flt query ms w h sc K (min n (length ms)) n st"
  shows "\<exists>st'. pipeline_step flt query ms w h sc K n st = Inr st' \<and>
               pipeline_inv flt query ms w h sc K (min (Suc n) (length ms)) (Suc n) st'"
proof -
  let ?a = "min (Suc n) (length ms)"
  have "\<exists>st1. (if n < length ms then pipeline_issue flt ms w h sc K n st else Inr st) = Inr st1 \<and>
              pipeline_inv flt query ms w h sc K ?a n st1"
  proof (cases "n < length ms")
    case True
    then have "pipeline_inv flt query ms w h sc K n n st" using inv by (simp add: min_def)
    from pipeline_issue_inv [OF ok this True] True show ?thesis by (simp add: min_def)
  next
    case False
    then have "min n (length ms) = length ms" "?a = length ms" by simp_all
    then show ?thesis using inv False by simp
  qed
  then obtain st1 where
    st1: "(if n < length ms then pipeline_issue flt ms w h sc K n st else Inr st) = Inr st1"
    and inv1: "pipeline_inv flt query ms w h sc K ?a n st1"
    by blast
  show ?thesis
  proof (cases "2 \<le> n \<and> n - 2 < length ms")
    case True
    have a: "n - 2 < ?a" "?a \<le> n + 1" using True by auto
    from pipeline_harvest_inv [OF ok inv1 _ _ a] True
    obtain st' where st': "pipeline_harvest query w h n st1 = Inr st'"
      "pipeline_inv flt query ms w h sc K ?a (Suc n) st'" by blast
    have c: "(2 \<le> n \<and> n - 2 < length ms) = True"
      using True by simp
    have "pipeline_step flt query ms w h sc K n st = Inr st'"
      by (simp only: pipeline_step_def st1 c sum.case if_True st'(1))
    with st'(2) show ?thesis by blast
  next
    case False
    have c: "(2 \<le> n \<and> n - 2 < length ms) = False"
      using False by simp
    have "pipeline_step flt query ms w h sc K n st = Inr st1"
      by (simp only: pipeline_step_def st1 c sum.case if_False)
    with pipeline_inv_skip [OF inv1 False] show ?thesis by blast
  qed
qed

lemma pipeline_run_inv:
  assumes ok: "pipeline_inputs_ok flt query ms w h sc K"
  shows "\<exists>st. pipeline_run flt query ms w h sc K (pipeline_init (length ms) w h) n = Inr st \<and>
              pipeline_inv flt query ms w h sc K (min n (length ms)) n st"
proof (induction n)
  case 0
  show ?case using pipeline_inv_init [of flt query ms w h sc K] by simp
next
  case (Suc n)
  then obtain st where "pipeline_run flt query ms w h sc K (pipeline_init (length ms) w h) n = Inr st"
    "pipeline_inv flt query ms w h sc K (min n (length ms)) n st" by blast
  with pipeline_step_inv [OF ok this(2)] show ?case by simp
qed


lemma pipeline_final:
  assumes ok: "pipeline_inputs_ok flt query ms w h sc K"
  shows "\<exists>st. triple_buffered_mipmap_pipeline_state flt cudaSuccess query ms w h sc K = Inr st \<and>
              pipeline_inv flt query ms w h sc K (length ms) (length ms + 2) st"
  using pipeline_run_inv [OF ok, of "length ms + 2"]
  by (simp add: triple_buffered_mipmap_pipeline_state_def Let_def)

text \<open>
  C7. In every run of the pipeline that returns (all masks of the frame's dimensions,
  no event query failing with an error), mask \<open>i\<close> is issued at step \<open>i\<close> into buffer
  slot \<open>i mod 3\<close> and nowhere else, and the outputs are indexed as the inputs. Result
  \<open>i\<close> is harvested exactly when its one event query, made at step \<open>i + 2\<close> on slot
  \<open>i mod 3\<close>, answers \<open>cudaSuccess\<close>: then \<open>outputImages[i]\<close> is the filter's result for
  mask \<open>i\<close>. When the query answers \<open>cudaErrorNotReady\<close> result \<open>i\<close> is harvested at no
  step at all and \<open>outputImages[i]\<close> stays the empty default matrix, so it is not true
  of every run that result \<open>i\<close> is harvested at step \<open>i + 2\<close>.
\<close>

theorem triple_buffer_harvest_only_on_success:
  assumes "pipeline_inputs_ok flt query ms w h sc K"
  shows "\<exists>st. triple_buffered_mipmap_pipeline_state flt cudaSuccess query ms w h sc K = Inr st \<and>
     triple_buffered_mipmap_pipeline flt cudaSuccess query ms w h sc K = Inr (outputImages st) \<and>
     length (outputImages st) = length ms \<and>
     (\<forall>i < length ms.
        Issued i (i mod 3) i \<in> set (trace st) \<and>
        (\<forall>s b. Issued s b i \<in> set (trace st) \<longrightarrow> s = i \<and> b = i mod 3) \<and>
        (\<forall>s b. Harvested s b i \<in> set (trace st) \<longleftrightarrow>
                 query i = cudaSuccess \<and> s = i + 2 \<and> b = i mod 3) \<and>
        outputImages st ! i =
          (if query i = cudaSuccess
           then CV_8UC4 \<lparr>rows = h, cols = w, data = apply_mipmap_async flt (ms ! i) sc K\<rparr>
           else Mat_default))"
proof -
  from pipeline_final [OF assms] obtain st where
    st: "triple_buffered_mipmap_pipeline_state flt cudaSuccess query ms w h sc K = Inr st"
    and inv: "pipeline_inv flt query ms w h sc K (length ms) (length ms + 2) st"
    by blast
  note D = pipeline_invD [OF inv]
  have out: "triple_buffered_mipmap_pipeline flt cudaSuccess query ms w h sc K = Inr (outputImages st)"
    by (simp add: triple_buffered_mipmap_pipeline_def st)
  have each: "Issued i (i mod 3) i \<in> set (trace st) \<and>
        (\<forall>s b. Issued s b i \<in> set (trace st) \<longrightarrow> s = i \<and> b = i mod 3) \<and>
        (\<forall>s b. Harvested s b i \<in> set (trace st) \<longleftrightarrow>
                 query i = cudaSuccess \<and> s = i + 2 \<and> b = i mod 3) \<and>
        outputImages st ! i =
          (if query i = cudaSuccess
           then CV_8UC4 \<lparr>rows = h, cols = w, data = apply_mipmap_async flt (ms ! i) sc K\<rparr>
           else Mat_default)"
    if i: "i < length ms" for i
  proof (intro conjI allI impI)
    show "Issued i (i mod 3) i \<in> set (trace st)"
      using D(8) [of i "i mod 3" i] i by simp
    show "s = i" "b = i mod 3" if "Issued s b i \<in> set (trace st)" for s b
      using D(8) [of s b i] that by simp_all
    show "Harvested s b i \<in> set (trace st) \<longleftrightarrow>
            query i = cudaSuccess \<and> s = i + 2 \<and> b = i mod 3" for s b
      using D(9) [of s b i] i by auto
    show "outputImages st ! i =
          (if query i = cudaSuccess
           then CV_8UC4 \<lparr>rows = h, cols = w, data = apply_mipmap_async flt (ms ! i) sc K\<rparr>
           else Mat_default)"
      using D(7) [OF i] i by simp
  qed
  show ?thesis
    using st out D(5) each by blast
qed

theorem triple_buffer_harvest_only_on_success_witness:
  "\<exists>st. triple_buffered_mipmap_pipeline_state (\<lambda>w h s b. b) cudaSuccess
          (\<lambda>k. if k = 0 then cudaErrorNotReady else cudaSuccess)
          [\<lparr>rows = 1, cols = 1, data = [56]\<rparr>, \<lparr>rows = 1, cols = 1, data = [60]\<rparr>] 1 1 1 56 = Inr st \<and>
        Issued 0 0 0 \<in> set (trace st) \<and>
        (\<forall>s b. Harvested s b 0 \<notin> set (trace st)) \<and>
        outputImages st ! 0 = Mat_default \<and>
        Harvested 3 1 1 \<in> set (trace st) \<and>
        outputImages st ! 1 = CV_8UC4 \<lparr>rows = 1, cols = 1, data = [(0, 0, 0, 0)]\<rparr>"
proof -
  let ?m0 = "\<lparr>rows = 1, cols = 1, data = [56 :: uchar]\<rparr>"
  let ?m1 = "\<lparr>rows = 1, cols = 1, data = [60 :: uchar]\<rparr>"
  let ?flt = "(\<lambda>w h s b. b) :: mipmap_filter"
  let ?q = "\<lambda>k :: nat. if k = 0 then cudaErrorNotReady else cudaSuccess"
  have ok: "pipeline_inputs_ok ?flt ?q [?m0, ?m1] 1 1 1 56"
    by (simp add: pipeline_inputs_ok_def Mat_wf_def mipmap_src_img_data)
  from triple_buffer_harvest_only_on_success [OF ok] obtain st where
    st: "triple_buffered_mipmap_pipeline_state ?flt cudaSuccess ?q [?m0, ?m1] 1 1 1 56 = Inr st"
    and each: "\<forall>i < length [?m0, ?m1].
        Issued i (i mod 3) i \<in> set (trace st) \<and>
        (\<forall>s b. Issued s b i \<in> set (trace st) \<longrightarrow> s = i \<and> b = i mod 3) \<and>
        (\<forall>s b. Harvested s b i \<in> set (trace st) \<longleftrightarrow>
                 ?q i = cudaSuccess \<and> s = i + 2 \<and> b = i mod 3) \<and>
        outputImages st ! i =
          (if ?q i = cudaSuccess
           then CV_8UC4 \<lparr>rows = 1, cols = 1, data = apply_mipmap_async ?flt ([?m0, ?m1] ! i) 1 56\<rparr>
           else Mat_default)"
    by blast
  have r: "apply_mipmap_async ?flt ?m1 1 56 = [(0, 0, 0, 0)]"
    by (simp add: apply_mipmap_async_def mipmap_src_img_data Mat_wf_def mask_to_rgba_def)
  have i0: "(0::nat) < length [?m0, ?m1]" and i1: "(1::nat) < length [?m0, ?m1]"
    by simp_all
  note e0 = each [rule_format, OF i0]
  note e1 = each [rule_format, OF i1]
  have a: "Issued 0 0 0 \<in> set (trace st)"
    using e0 [THEN conjunct1] by simp
  have b: "Harvested s b 0 \<notin> set (trace st)" for s b
    using e0 [THEN conjunct2, THEN conjunct2, THEN conjunct1, rule_format, of s b] by simp
  have c: "outputImages st ! 0 = Mat_default"
    using e0 [THEN conjunct2, THEN conjunct2, THEN conjunct2] by simp
  have d: "Harvested 3 1 1 \<in> set (trace st)"
    using e1 [THEN conjunct2, THEN conjunct2, THEN conjunct1, rule_format, of 3 1] by simp
  have e: "outputImages st ! 1 = CV_8UC4 \<lparr>rows = 1, cols = 1, data = [(0, 0, 0, 0)]\<rparr>"
    using e1 [THEN conjunct2, THEN conjunct2, THEN conjunct2] r by simp
  show ?thesis
  proof (intro exI [of _ st] conjI allI)
    show "triple_buffered_mipmap_pipeline_state ?flt cudaSuccess ?q [?m0, ?m1] 1 1 1 56 = Inr st"
      by (rule st)
    show "Issued 0 0 0 \<in> set (trace st)" by (rule a)
    show "Harvested s b 0 \<notin> set (trace st)" for s b by (rule b)
    show "outputImages st ! 0 = Mat_default" by (rule c)
    show "Harvested 3 1 1 \<in> set (trace st)" by (rule d)
    show "outputImages st ! 1 = CV_8UC4 \<lparr>rows = 1, cols = 1, data = [(0, 0, 0, 0)]\<rparr>" by (rule e)
  qed
qed

text \<open>
  C4. When the event query for result \<open>i\<close> answers \<open>cudaErrorNotReady\<close> at step
  \<open>i + 2\<close>, the pipeline neither waits nor asks again: it returns with
  \<open>outputImages[i]\<close> still the empty default matrix.
\<close>

theorem pipeline_not_ready_leaves_slot_empty:
  assumes "pipeline_inputs_ok flt query ms w h sc K"
    and "i < length ms" and "query i = cudaErrorNotReady"
  shows "\<exists>outs. triple_buffered_mipmap_pipeline flt cudaSuccess query ms w h sc K = Inr outs \<and>
           length outs = length ms \<and> outs ! i = Mat_default \<and> image_empty (outs ! i)"
proof -
  from pipeline_final [OF assms(1)] obtain st where
    st: "triple_buffered_mipmap_pipeline_state flt cudaSuccess query ms w h sc K = Inr st"
    and inv: "pipeline_inv flt query ms w h sc K (length ms) (length ms + 2) st"
    by blast
  note D = pipeline_invD [OF inv]
  have "triple_buffered_mipmap_pipeline flt cudaSuccess query ms w h sc K = Inr (outputImages st)"
    by (simp add: triple_buffered_mipmap_pipeline_def st)
  moreover have "outputImages st ! i = Mat_default"
    using D(7) [OF assms(2)] assms(3) by simp
  moreover have "image_empty Mat_default"
    by (simp add: Mat_default_def image_empty_def)
  ultimately show ?thesis using D(5) by simp
qed

theorem pipeline_not_ready_leaves_slot_empty_witness:
  "triple_buffered_mipmap_pipeline (\<lambda>w h s b. b) cudaSuccess (\<lambda>k. cudaErrorNotReady)
     [\<lparr>rows = 1, cols = 1, data = [56]\<rparr>] 1 1 1 56 = Inr [Mat_default]"
proof -
  let ?m0 = "\<lparr>rows = 1, cols = 1, data = [56 :: uchar]\<rparr>"
  let ?flt = "(\<lambda>w h s b. b) :: mipmap_filter"
  have wf: "Mat_wf ?m0" by (simp add: Mat_wf_def)
  have ok: "pipeline_inputs_ok ?flt (\<lambda>k. cudaErrorNotReady) [?m0] 1 1 1 56"
    by (simp add: pipeline_inputs_ok_def Mat_wf_def mipmap_src_img_data)
  from pipeline_not_ready_leaves_slot_empty [OF ok, of 0]
  obtain outs where "triple_buffered_mipmap_pipeline ?flt cudaSuccess (\<lambda>k. cudaErrorNotReady)
       [?m0] 1 1 1 56 = Inr outs" "length outs = 1" "outs ! 0 = Mat_default"
    by auto
  moreover from this have "outs = [Mat_default]"
    by (cases outs) simp_all
  ultimately show ?thesis by simp
qed

section \<open>Properties of the concurrent inference\<close>

lemma sub_batch_size_cover:
  assumes "1 \<le> nw"
  shows "tot \<le> nw * sub_batch_size tot nw"
proof -
  let ?a = "tot + nw - 1"
  have "?a = ?a div nw * nw + ?a mod nw" by simp
  moreover have "?a mod nw < nw" using assms by simp
  ultimately have "?a < ?a div nw * nw + nw" by linarith
  then have "tot \<le> ?a div nw * nw" using assms by linarith
  then show ?thesis by (simp add: sub_batch_size_def mult.commute)
qed

lemma sub_batch_size_pos:
  assumes "1 \<le> nw" "1 \<le> tot"
  shows "1 \<le> sub_batch_size tot nw"
proof (rule ccontr)
  assume "\<not> 1 \<le> sub_batch_size tot nw"
  then have "sub_batch_size tot nw = 0" by simp
  with sub_batch_size_cover [OF assms(1), of tot] assms(2) show False by simp
qed

lemma sub_batch_range_iff:
  assumes sb: "1 \<le> sb" and k: "k < tot"
  shows "(case sub_batch_range tot sb t of (s, e) \<Rightarrow> s \<le> k \<and> k < e) \<longleftrightarrow> t = k div sb"
proof -
  have pos: "0 < sb" using sb by simp
  have "(t * sb \<le> k \<and> k < t * sb + sb) \<longleftrightarrow> t = k div sb"
  proof
    assume a: "t * sb \<le> k \<and> k < t * sb + sb"
    then have "t \<le> k div sb"
      using pos by (simp add: less_eq_div_iff_mult_less_eq)
    moreover have "k < Suc t * sb" using a by simp
    then have "k div sb < Suc t"
      using pos by (simp add: div_less_iff_less_mult)
    ultimately show "t = k div sb" by simp
  next
    assume t: "t = k div sb"
    have "k div sb * sb \<le> k" by simp
    moreover have "k < k div sb * sb + sb"
      using pos by (metis add.commute div_mult_mod_eq mod_less_divisor nat_add_left_cancel_less mult.commute)
    ultimately show "t * sb \<le> k \<and> k < t * sb + sb" using t by simp
  qed
  then show ?thesis using k by (auto simp: sub_batch_range_def Let_def)
qed

lemma sub_batch_worker_bound:
  assumes "1 \<le> nw" "k < tot"
  shows "k div sub_batch_size tot nw < nw"
proof -
  have "1 \<le> tot" using assms(2) by simp
  from sub_batch_size_pos [OF assms(1) this] have pos: "0 < sub_batch_size tot nw" by simp
  have "k < nw * sub_batch_size tot nw"
    using sub_batch_size_cover [OF assms(1), of tot] assms(2) by simp
  then show ?thesis using pos by (simp add: div_less_iff_less_mult)
qed

lemma write_results_prefix:
  assumes "m \<le> length lr"
  shows "length (fold (\<lambda>i res. res[s + i := lr ! i]) [0..<m] res) = length res \<and>
         (\<forall>k < length res. fold (\<lambda>i res. res[s + i := lr ! i]) [0..<m] res ! k =
            (if s \<le> k \<and> k < s + m then lr ! (k - s) else res ! k))"
  using assms
proof (induction m)
  case 0
  then show ?case by auto
next
  case (Suc m)
  then have IH: "length (fold (\<lambda>i res. res[s + i := lr ! i]) [0..<m] res) = length res"
    "\<And>k. k < length res \<Longrightarrow> fold (\<lambda>i res. res[s + i := lr ! i]) [0..<m] res ! k =
            (if s \<le> k \<and> k < s + m then lr ! (k - s) else res ! k)"
    by simp_all
  show ?case
  proof (intro conjI allI impI)
    show "length (fold (\<lambda>i res. res[s + i := lr ! i]) [0..<Suc m] res) = length res"
      using IH(1) by simp
    fix k assume k: "k < length res"
    show "fold (\<lambda>i res. res[s + i := lr ! i]) [0..<Suc m] res ! k =
            (if s \<le> k \<and> k < s + Suc m then lr ! (k - s) else res ! k)"
    proof (cases "k = s + m")
      case True
      then show ?thesis using k IH(1) by simp
    next
      case False
      then have "(s \<le> k \<and> k < s + Suc m) = (s \<le> k \<and> k < s + m)" by auto
      then show ?thesis using False k IH(2) [OF k] by simp
    qed
  qed
qed

lemma write_results_length: "length (write_results s lr res) = length res"
  using write_results_prefix [of "length lr" lr s res] by (simp add: write_results_def)

lemma write_results_nth:
  "k < length res \<Longrightarrow> write_results s lr res ! k =
     (if s \<le> k \<and> k < s + length lr then lr ! (k - s) else res ! k)"
  using write_results_prefix [of "length lr" lr s res] by (simp add: write_results_def)


lemma length_slice: "e \<le> length xs \<Longrightarrow> length (tensor_slice xs s e) = e - s"
  by (simp add: tensor_slice_def)

lemma slice_nth: "e \<le> length xs \<Longrightarrow> s + i < e \<Longrightarrow> tensor_slice xs s e ! i = xs ! (s + i)"
  by (simp add: tensor_slice_def)

lemma length_pad_sub_batch: "length (pad_sub_batch sub) = max 4 (length sub)"
  by (simp add: pad_sub_batch_def Let_def)

lemma pad_sub_batch_nth: "i < length sub \<Longrightarrow> pad_sub_batch sub ! i = sub ! i"
  by (simp add: pad_sub_batch_def Let_def nth_append)

lemma pad_sub_batch_last:
  "sub \<noteq> [] \<Longrightarrow> pad_sub_batch sub = sub @ replicate (4 - length sub) (last sub)"
  by (simp add: pad_sub_batch_def Let_def last_conv_nth)


lemma sub_batch_range_width:
  assumes "sub_batch_range tot sb t = (s, e)"
  shows "e - s \<le> sb" and "e \<le> tot" and "s = t * sb"
  using assms by (auto simp: sub_batch_range_def Let_def)

lemma fixed_engine_fits:
  assumes "\<forall>ys. length ys = 4 \<longrightarrow> length (infer ys) = 4"
    and "e \<le> length xs" "e - s \<le> 4"
  shows "length (infer (pad_sub_batch (tensor_slice xs s e))) = 4"
proof -
  have "length (pad_sub_batch (tensor_slice xs s e)) = 4"
    using assms(2,3) by (simp add: length_pad_sub_batch length_slice)
  then show ?thesis using assms(1) by simp
qed

lemma concurrent_worker_wrote:
  assumes "context_ok t" "enqueue_ok t"
    and "sub_batch_range (length xs) sb t = (s, e)" "s < e"
    and "e - s \<le> length (infer (pad_sub_batch (tensor_slice xs s e)))"
  shows "concurrent_worker infer context_ok enqueue_ok xs sb t =
         Wrote s (take (e - s) (infer (pad_sub_batch (tensor_slice xs s e))))"
  using assms by (simp add: concurrent_worker_def Let_def)

lemma concurrent_worker_returned:
  assumes "sub_batch_range (length xs) sb t = (s, e)" "e \<le> s"
  shows "concurrent_worker infer context_ok enqueue_ok xs sb t = Returned"
  using assms by (simp add: concurrent_worker_def Let_def)

lemma fold_outcomes_length:
  "length (fold (\<lambda>outcome res. case outcome of Wrote s lr \<Rightarrow> write_results s lr res | _ \<Rightarrow> res)
             os init) = length init"
  by (induction os arbitrary: init) (simp_all add: write_results_length split: worker_outcome.splits)

lemma fold_outcomes_nth:
  assumes "k < length init"
    and "\<And>s lr. Wrote s lr \<in> set os \<Longrightarrow> s \<le> k \<Longrightarrow> k < s + length lr \<Longrightarrow> lr ! (k - s) = v"
  shows "fold (\<lambda>outcome res. case outcome of Wrote s lr \<Rightarrow> write_results s lr res | _ \<Rightarrow> res)
           os init ! k =
         (if \<exists>s lr. Wrote s lr \<in> set os \<and> s \<le> k \<and> k < s + length lr then v else init ! k)"
  using assms
proof (induction os arbitrary: init)
  case Nil
  then show ?case by simp
next
  case (Cons a os)
  let ?F = "\<lambda>outcome res. case outcome of Wrote s lr \<Rightarrow> write_results s lr res | _ \<Rightarrow> res"
  have len: "k < length (?F a init)"
    using Cons.prems(1) by (simp add: write_results_length split: worker_outcome.splits)
  have rest: "\<And>s lr. Wrote s lr \<in> set os \<Longrightarrow> s \<le> k \<Longrightarrow> k < s + length lr \<Longrightarrow> lr ! (k - s) = v"
    using Cons.prems(2) by simp
  note IH = Cons.IH [OF len rest]
  show ?case
  proof (cases a)
    case (Wrote s lr)
    have here: "?F a init ! k = (if s \<le> k \<and> k < s + length lr then v else init ! k)"
      using Cons.prems(1) Cons.prems(2) [of s lr] Wrote by (simp add: write_results_nth)
    show ?thesis
      using IH here Wrote by auto
  next
    case Returned
    then show ?thesis using IH by auto
  next
    case Exited
    then show ?thesis using IH by auto
  qed
qed


lemma concurrent_worker_cases:
  assumes "concurrent_worker infer context_ok enqueue_ok xs sb t = Wrote s lr"
  shows "\<exists>e. sub_batch_range (length xs) sb t = (s, e) \<and> s < e \<and>
             lr = take (e - s) (infer (pad_sub_batch (tensor_slice xs s e))) \<and> length lr = e - s"
proof -
  obtain s' e' where r: "sub_batch_range (length xs) sb t = (s', e')"
    by (cases "sub_batch_range (length xs) sb t")
  have "s = s' \<and> s' < e' \<and> lr = take (e' - s') (infer (pad_sub_batch (tensor_slice xs s' e'))) \<and>
        \<not> length (infer (pad_sub_batch (tensor_slice xs s' e'))) < e' - s'"
    using assms r by (auto simp: concurrent_worker_def Let_def split: if_splits)
  then show ?thesis using r by auto
qed

lemma concurrent_worker_not_exited:
  assumes "context_ok t" "enqueue_ok t" "\<forall>ys. length ys = 4 \<longrightarrow> length (infer ys) = 4"
    and "sb \<le> 4"
  shows "concurrent_worker infer context_ok enqueue_ok xs sb t \<noteq> Exited"
proof -
  obtain s e where r: "sub_batch_range (length xs) sb t = (s, e)"
    by (cases "sub_batch_range (length xs) sb t")
  note w = sub_batch_range_width [OF r]
  show ?thesis
  proof (cases "s < e")
    case True
    have es: "e \<le> length xs" "e - s \<le> 4" using w(1,2) assms(4) by arith+
    have "length (infer (pad_sub_batch (tensor_slice xs s e))) = 4"
      by (rule fixed_engine_fits [OF assms(3) es])
    then have "e - s \<le> length (infer (pad_sub_batch (tensor_slice xs s e)))"
      using es by simp
    from concurrent_worker_wrote [where context_ok = context_ok and enqueue_ok = enqueue_ok
        and t = t and infer = infer, OF assms(1,2) r True this]
    show ?thesis by simp
  next
    case False
    then have "e \<le> s" by simp
    from concurrent_worker_returned [OF r this, of infer context_ok enqueue_ok]
    show ?thesis by simp
  qed
qed

lemma sub_batch_size_two: "n \<le> 8 \<Longrightarrow> sub_batch_size n 2 \<le> 4"
  by (simp add: sub_batch_size_def)

lemma concurrent_results:
  assumes ok: "\<forall>t. context_ok t \<and> enqueue_ok t"
    and eng: "\<forall>ys. length ys = 4 \<longrightarrow> length (infer ys) = 4"
    and sched: "is_schedule 2 schedule" and tot: "1 \<le> length xs" and small: "length xs \<le> 8"
  shows "\<exists>res. measure_segmentation_trt_performance_mul_concurrent True infer context_ok enqueue_ok
                 schedule empty_mat xs = Inr res \<and> length res = length xs \<and>
           (\<forall>k < length xs.
              case sub_batch_range (length xs) (sub_batch_size (length xs) 2)
                     (k div sub_batch_size (length xs) 2) of
                (s, e) \<Rightarrow> res ! k = infer (pad_sub_batch (tensor_slice xs s e)) ! (k - s) \<and>
                           pad_sub_batch (tensor_slice xs s e) ! (k - s) = xs ! k)"
proof -
  let ?sb = "sub_batch_size (length xs) 2"
  let ?W = "concurrent_worker infer context_ok enqueue_ok xs ?sb"
  let ?F = "\<lambda>outcome res. case outcome of Wrote s lr \<Rightarrow> write_results s lr res | _ \<Rightarrow> res"
  let ?res = "fold ?F (map ?W schedule) (replicate (length xs) empty_mat)"
  have c: "context_ok t" "enqueue_ok t" for t using ok by simp_all
  have sb: "1 \<le> ?sb" using sub_batch_size_pos [of 2 "length xs"] tot by simp
  have sb4: "?sb \<le> 4" using small by (rule sub_batch_size_two)
  have ne: "?W t \<noteq> Exited" for t
    by (rule concurrent_worker_not_exited [where context_ok = context_ok
          and enqueue_ok = enqueue_ok, OF c eng sb4])
  have "Exited \<notin> set (map ?W schedule)"
  proof
    assume "Exited \<in> set (map ?W schedule)"
    then obtain t where "?W t = Exited" by (auto simp: image_iff) metis
    with ne [of t] show False by simp
  qed
  then have run: "measure_segmentation_trt_performance_mul_concurrent True infer context_ok
      enqueue_ok schedule empty_mat xs = Inr ?res"
    by (simp add: measure_segmentation_trt_performance_mul_concurrent_def merge_workers_def Let_def)
  have lres: "length ?res = length xs"
    by (simp add: fold_outcomes_length)
  have each: "case sub_batch_range (length xs) ?sb (k div ?sb) of
                (s, e) \<Rightarrow> ?res ! k = infer (pad_sub_batch (tensor_slice xs s e)) ! (k - s) \<and>
                           pad_sub_batch (tensor_slice xs s e) ! (k - s) = xs ! k"
    if k: "k < length xs" for k
  proof -
    let ?t = "k div ?sb"
    obtain s e where r: "sub_batch_range (length xs) ?sb ?t = (s, e)"
      by (cases "sub_batch_range (length xs) ?sb ?t")
    note w = sub_batch_range_width [OF r]
    have "case sub_batch_range (length xs) ?sb ?t of (s, e) \<Rightarrow> s \<le> k \<and> k < e"
      using sub_batch_range_iff [OF sb k, of ?t] by simp
    then have se: "s \<le> k" "k < e" using r by simp_all
    then have lt: "s < e" by simp
    have e: "e \<le> length xs" by (rule w(2))
    let ?P = "pad_sub_batch (tensor_slice xs s e)"
    let ?v = "infer ?P ! (k - s)"
    have es4: "e - s \<le> 4" using w(1) sb4 by arith
    have lenP: "length (infer ?P) = 4"
      by (rule fixed_engine_fits [OF eng e es4])
    then have fits: "e - s \<le> length (infer ?P)" using es4 by simp
    have w': "?W ?t = Wrote s (take (e - s) (infer ?P))"
      by (rule concurrent_worker_wrote [where context_ok = context_ok and enqueue_ok = enqueue_ok
            and infer = infer and t = ?t, OF c r lt fits])
    have "?t < 2" using sub_batch_worker_bound [of 2 k "length xs"] k by simp
    then have "?t \<in> set schedule" using sched by (simp add: is_schedule_def)
    then have mem: "Wrote s (take (e - s) (infer ?P)) \<in> set (map ?W schedule)"
      using w' by force
    have ex: "\<exists>s' lr. Wrote s' lr \<in> set (map ?W schedule) \<and> s' \<le> k \<and> k < s' + length lr"
      using mem se fits by (intro exI [of _ s] exI [of _ "take (e - s) (infer ?P)"]) auto
    have same: "lr ! (k - s') = ?v"
      if "Wrote s' lr \<in> set (map ?W schedule)" "s' \<le> k" "k < s' + length lr" for s' lr
    proof -
      from that(1) obtain t' where t': "?W t' = Wrote s' lr" by auto
      from concurrent_worker_cases [OF t'] obtain e' where
        r': "sub_batch_range (length xs) ?sb t' = (s', e')" and "s' < e'"
        and lr: "lr = take (e' - s') (infer (pad_sub_batch (tensor_slice xs s' e')))"
        and ll: "length lr = e' - s'"
        by blast
      have "k < e'" using that(3) ll \<open>s' < e'\<close> by simp
      then have "case sub_batch_range (length xs) ?sb t' of (s, e) \<Rightarrow> s \<le> k \<and> k < e"
        using r' that(2) by simp
      then have "t' = ?t" using sub_batch_range_iff [OF sb k, of t'] by simp
      then have "s' = s" "e' = e" using r r' by simp_all
      then show ?thesis using lr se by simp
    qed
    have "?res ! k = ?v"
      using fold_outcomes_nth [of k "replicate (length xs) empty_mat" "map ?W schedule" ?v] k same ex
      by simp
    moreover have "?P ! (k - s) = xs ! k"
      using se e by (simp add: pad_sub_batch_nth length_slice slice_nth)
    ultimately show ?thesis using r by simp
  qed
  show ?thesis using run lres each by blast
qed


lemma sub_batch_range_two_owner:
  assumes "sub_batch_range (length xs) (sub_batch_size (length xs) 2) t = (s, e)"
    and "s \<le> k" "k < e"
  shows "k < length xs \<and> k div sub_batch_size (length xs) 2 = t"
proof -
  let ?sb = "sub_batch_size (length xs) 2"
  note w = sub_batch_range_width [OF assms(1)]
  have k: "k < length xs" using w(2) assms(3) by arith
  then have "1 \<le> length xs" by arith
  then have sb: "1 \<le> ?sb" using sub_batch_size_pos [of 2 "length xs"] by simp
  have "case sub_batch_range (length xs) ?sb t of (s, e) \<Rightarrow> s \<le> k \<and> k < e"
    using assms by simp
  then have "t = k div ?sb" using sub_batch_range_iff [OF sb k, of t] by simp
  then show ?thesis using k by simp
qed

text \<open>
  C5. A worker whose sub-batch has \<open>validCount \<le> 4\<close> images enqueues, when
  \<open>validCount \<ge> 1\<close>, a batch of exactly 4: the sub-batch followed by \<open>4 - validCount\<close>
  copies of its last image. Of the 4 masks that come back it keeps the first
  \<open>validCount\<close> only and writes them to \<open>allResults[startIdx .. endIdx - 1]\<close>, every
  other entry of \<open>allResults\<close> staying as it was; in the result of
  \<open>measure_segmentation_trt_performance_mul_concurrent\<close> (two workers, at most 8
  images) these \<open>validCount\<close> entries are the first \<open>validCount\<close> masks of the padded
  batch and the result has one entry per input image, not per padded image. With
  \<open>validCount = 0\<close> the worker returns before any inference and writes nothing. (The
  worker has its context, the timed enqueue succeeds and the engine returns 4 masks
  for a batch of 4.)
\<close>

theorem sub_batch_padding:
  assumes "context_ok t" and "enqueue_ok t"
    and "\<forall>ys. length ys = 4 \<longrightarrow> length (infer ys) = 4"
    and "sub_batch_range (length xs) subBatch t = (startIdx, endIdx)"
    and "validCount = endIdx - startIdx" and "validCount \<le> 4"
  shows "(validCount = 0 \<longrightarrow>
            concurrent_worker infer context_ok enqueue_ok xs subBatch t = Returned) \<and>
         (1 \<le> validCount \<longrightarrow>
            pad_sub_batch (tensor_slice xs startIdx endIdx) =
              tensor_slice xs startIdx endIdx @
                replicate (4 - validCount) (last (tensor_slice xs startIdx endIdx)) \<and>
            length (pad_sub_batch (tensor_slice xs startIdx endIdx)) = 4 \<and>
            length (infer (pad_sub_batch (tensor_slice xs startIdx endIdx))) = 4 \<and>
            concurrent_worker infer context_ok enqueue_ok xs subBatch t =
              Wrote startIdx (take validCount (infer (pad_sub_batch (tensor_slice xs startIdx endIdx)))) \<and>
            length (take validCount (infer (pad_sub_batch (tensor_slice xs startIdx endIdx)))) = validCount \<and>
            (\<forall>allResults. length allResults = length xs \<longrightarrow>
               length (write_results startIdx
                  (take validCount (infer (pad_sub_batch (tensor_slice xs startIdx endIdx))))
                  allResults) = length xs \<and>
               (\<forall>k < length xs.
                  write_results startIdx
                    (take validCount (infer (pad_sub_batch (tensor_slice xs startIdx endIdx))))
                    allResults ! k =
                  (if startIdx \<le> k \<and> k < endIdx
                   then infer (pad_sub_batch (tensor_slice xs startIdx endIdx)) ! (k - startIdx)
                   else allResults ! k))) \<and>
            (subBatch = sub_batch_size (length xs) 2 \<and> length xs \<le> 8 \<and>
             is_schedule 2 schedule \<and> (\<forall>t'. context_ok t' \<and> enqueue_ok t') \<longrightarrow>
               (\<exists>res. measure_segmentation_trt_performance_mul_concurrent True infer context_ok
                         enqueue_ok schedule empty_mat xs = Inr res \<and>
                      length res = length xs \<and>
                      (\<forall>k. startIdx \<le> k \<and> k < endIdx \<longrightarrow>
                         res ! k =
                           infer (pad_sub_batch (tensor_slice xs startIdx endIdx)) ! (k - startIdx)))))"
proof (intro conjI impI)
  assume "validCount = 0"
  then have "endIdx \<le> startIdx" using assms(5) by simp
  then show "concurrent_worker infer context_ok enqueue_ok xs subBatch t = Returned"
    by (rule concurrent_worker_returned [OF assms(4)])
next
  assume v: "1 \<le> validCount"
  let ?P = "pad_sub_batch (tensor_slice xs startIdx endIdx)"
  let ?lr = "take validCount (infer ?P)"
  from v have lt: "startIdx < endIdx" using assms(5) by simp
  note w = sub_batch_range_width [OF assms(4)]
  have e: "endIdx \<le> length xs" by (rule w(2))
  have es: "endIdx - startIdx \<le> 4" using assms(5,6) by simp
  have len: "length (tensor_slice xs startIdx endIdx) = validCount"
    using e assms(5) by (simp add: length_slice)
  then have ne: "tensor_slice xs startIdx endIdx \<noteq> []" using v by auto
  show "?P = tensor_slice xs startIdx endIdx @
          replicate (4 - validCount) (last (tensor_slice xs startIdx endIdx))"
    using pad_sub_batch_last [OF ne] len by simp
  show "length ?P = 4"
    using len assms(6) by (simp add: length_pad_sub_batch)
  show four: "length (infer ?P) = 4"
    by (rule fixed_engine_fits [OF assms(3) e es])
  then have fits: "endIdx - startIdx \<le> length (infer ?P)" using es by simp
  show wr: "concurrent_worker infer context_ok enqueue_ok xs subBatch t = Wrote startIdx ?lr"
    using concurrent_worker_wrote [where context_ok = context_ok and enqueue_ok = enqueue_ok
        and t = t and infer = infer, OF assms(1,2,4) lt fits] assms(5) by simp
  show ll: "length ?lr = validCount"
    using assms(6) four by simp
  show "\<forall>allResults. length allResults = length xs \<longrightarrow>
               length (write_results startIdx ?lr allResults) = length xs \<and>
               (\<forall>k < length xs.
                  write_results startIdx ?lr allResults ! k =
                  (if startIdx \<le> k \<and> k < endIdx then infer ?P ! (k - startIdx)
                   else allResults ! k))"
  proof (intro allI impI conjI)
    fix allResults :: "'b list" and k
    assume la: "length allResults = length xs"
    show "length (write_results startIdx ?lr allResults) = length xs"
      using la by (simp add: write_results_length)
    assume k: "k < length xs"
    have se: "startIdx + validCount = endIdx" using assms(5) lt by simp
    have "write_results startIdx ?lr allResults ! k =
            (if startIdx \<le> k \<and> k < startIdx + length ?lr then ?lr ! (k - startIdx)
             else allResults ! k)"
      using k la by (simp add: write_results_nth)
    also have "\<dots> = (if startIdx \<le> k \<and> k < endIdx then infer ?P ! (k - startIdx)
                     else allResults ! k)"
      unfolding ll se using se by auto
    finally show "write_results startIdx ?lr allResults ! k =
            (if startIdx \<le> k \<and> k < endIdx then infer ?P ! (k - startIdx) else allResults ! k)" .
  qed
  show "\<exists>res. measure_segmentation_trt_performance_mul_concurrent True infer context_ok
                 enqueue_ok schedule empty_mat xs = Inr res \<and> length res = length xs \<and>
               (\<forall>k. startIdx \<le> k \<and> k < endIdx \<longrightarrow> res ! k = infer ?P ! (k - startIdx))"
    if a: "subBatch = sub_batch_size (length xs) 2 \<and> length xs \<le> 8 \<and>
           is_schedule 2 schedule \<and> (\<forall>t'. context_ok t' \<and> enqueue_ok t')"
  proof -
    have pos: "1 \<le> length xs" using lt e by arith
    from a have ok: "\<forall>t'. context_ok t' \<and> enqueue_ok t'" and sched: "is_schedule 2 schedule"
      and small: "length xs \<le> 8" and sbq: "subBatch = sub_batch_size (length xs) 2"
      by simp_all
    from concurrent_results [OF ok assms(3) sched pos small, of empty_mat] obtain res where
      run: "measure_segmentation_trt_performance_mul_concurrent True infer context_ok enqueue_ok
              schedule empty_mat xs = Inr res" and lres: "length res = length xs"
      and each: "\<forall>k < length xs.
              case sub_batch_range (length xs) (sub_batch_size (length xs) 2)
                     (k div sub_batch_size (length xs) 2) of
                (s, e) \<Rightarrow> res ! k = infer (pad_sub_batch (tensor_slice xs s e)) ! (k - s) \<and>
                           pad_sub_batch (tensor_slice xs s e) ! (k - s) = xs ! k"
      by blast
    have r: "sub_batch_range (length xs) (sub_batch_size (length xs) 2) t = (startIdx, endIdx)"
      using assms(4) sbq by simp
    have "res ! k = infer ?P ! (k - startIdx)" if "startIdx \<le> k \<and> k < endIdx" for k
    proof -
      from that have k: "startIdx \<le> k" "k < endIdx" by simp_all
      note o = sub_batch_range_two_owner [OF r k]
      from o have kl: "k < length xs" and kt: "k div sub_batch_size (length xs) 2 = t"
        by simp_all
      from each [rule_format, OF kl] show ?thesis
        unfolding kt r by simp
    qed
    then show ?thesis using run lres by blast
  qed
qed

theorem sub_batch_padding_witness:
  "pad_sub_batch (tensor_slice [10, 11, 12, 13, 14 :: nat] 3 5) = [13, 14, 14, 14] \<and>
   concurrent_worker (\<lambda>ys. map (\<lambda>x. x * 2) (take 4 ys)) (\<lambda>t. True) (\<lambda>t. True)
     [10, 11, 12, 13, 14 :: nat] 3 1 = Wrote 3 [26, 28 :: nat] \<and>
   write_results 3 [26, 28 :: nat] [0, 0, 0, 0, 0] = [0, 0, 0, 26, 28] \<and>
   (\<exists>res. measure_segmentation_trt_performance_mul_concurrent True
            (\<lambda>ys. map (\<lambda>x. x * 2) (take 4 ys)) (\<lambda>t. True) (\<lambda>t. True) [1, 0] 0
            [10, 11, 12, 13, 14 :: nat] = Inr res \<and>
          length res = 5 \<and> res ! 3 = 26 \<and> res ! 4 = 28)"
proof -
  let ?f = "\<lambda>ys :: nat list. map (\<lambda>x. x * 2) (take 4 ys)"
  let ?xs = "[10, 11, 12, 13, 14 :: nat]"
  let ?P = "pad_sub_batch (tensor_slice ?xs 3 5)"
  have r: "sub_batch_range (length ?xs) 3 1 = (3, 5)"
    by (simp add: sub_batch_range_def)
  have v: "(2::nat) = 5 - 3" "(2::nat) \<le> 4" "(1::nat) \<le> 2" by simp_all
  have l: "\<forall>ys :: nat list. length ys = 4 \<longrightarrow> length (?f ys) = 4" by simp
  have sch: "is_schedule 2 [1, 0]" by code_simp
  have sb: "(3::nat) = sub_batch_size (length ?xs) 2" by code_simp
  have pre: "3 = sub_batch_size (length ?xs) 2 \<and> length ?xs \<le> 8 \<and> is_schedule 2 [1, 0] \<and>
             (\<forall>t'::nat. True \<and> True)"
    using sch sb by simp
  note T = sub_batch_padding [of "\<lambda>t. True" 1 "\<lambda>t. True" ?f ?xs 3 3 5 2 "[1, 0]" 0,
      OF TrueI TrueI l r v(1,2), THEN conjunct2, rule_format, OF v(3)]
  have pd: "?P = [13, 14, 14, 14]" by code_simp
  have tk: "take 2 (?f [13, 14, 14, 14]) = [26, 28]" by code_simp
  have a: "concurrent_worker ?f (\<lambda>t. True) (\<lambda>t. True) ?xs 3 1 = Wrote 3 [26, 28]"
    using T [THEN conjunct2, THEN conjunct2, THEN conjunct2, THEN conjunct1]
    unfolding pd tk .
  have b: "write_results 3 [26, 28 :: nat] [0, 0, 0, 0, 0] = [0, 0, 0, 26, 28]"
    by code_simp
  from T [THEN conjunct2, THEN conjunct2, THEN conjunct2, THEN conjunct2, THEN conjunct2,
      THEN conjunct2, rule_format, OF pre] obtain res where
    run: "measure_segmentation_trt_performance_mul_concurrent True ?f (\<lambda>t. True) (\<lambda>t. True)
            [1, 0] 0 ?xs = Inr res" and lres: "length res = length ?xs"
    and each: "\<forall>k. 3 \<le> k \<and> k < 5 \<longrightarrow> res ! k = ?f ?P ! (k - 3)"
    by blast
  have i3: "(3::nat) \<le> 3 \<and> (3::nat) < 5" and i4: "(3::nat) \<le> 4 \<and> (4::nat) < 5" by simp_all
  have v3: "?f [13, 14, 14, 14] ! (3 - 3) = 26" and v4: "?f [13, 14, 14, 14] ! (4 - 3) = 28"
    by code_simp+
  have r3: "res ! 3 = 26" using each [rule_format, OF i3] unfolding pd v3 .
  have r4: "res ! 4 = 28" using each [rule_format, OF i4] unfolding pd v4 .
  have l5: "length res = 5" using lres by simp
  show ?thesis
  proof (intro conjI exI [of _ res])
    show "?P = [13, 14, 14, 14]" by (rule pd)
    show "concurrent_worker ?f (\<lambda>t. True) (\<lambda>t. True) ?xs 3 1 = Wrote 3 [26, 28]" by (rule a)
    show "write_results 3 [26, 28 :: nat] [0, 0, 0, 0, 0] = [0, 0, 0, 26, 28]" by (rule b)
    show "measure_segmentation_trt_performance_mul_concurrent True ?f (\<lambda>t. True) (\<lambda>t. True)
            [1, 0] 0 ?xs = Inr res" by (rule run)
    show "length res = 5" by (rule l5)
    show "res ! 3 = 26" by (rule r3)
    show "res ! 4 = 28" by (rule r4)
  qed
qed




section \<open>Properties of the orchestrator\<close>

lemma read_batch_result:
  "read_batch n v fs =
     (if v = [] \<and> fs = [] then ([], [])
      else (fs @ take n v @ replicate (n - length v) (last (fs @ v)), drop n v))"
proof (induction n v fs rule: read_batch.induct)
  case (1 video original_frames)
  then show ?case by simp
next
  case (2 n original_frames)
  then show ?case by (auto simp: replicate_app_Cons_same)
next
  case (3 n frame video original_frames)
  then show ?case by (auto simp: last_append)
qed

lemma read_batch_8:
  "read_batch 8 (frame # video) [] = (original_frames, video') \<Longrightarrow>
   length original_frames = 8 \<and> video' = drop 7 video"
  by (auto simp: read_batch_result)

lemma emit_loop_no_key:
  "emit_loop render (\<lambda>n. False) original_frames masks off is sink = (sink', stop) \<Longrightarrow>
   stop = None \<and> length sink' = length sink + length is"
  by (induction "is" arbitrary: sink) (auto simp: Let_def)

lemma emit_sub_batch_no_key:
  assumes "emit_sub_batch render (\<lambda>n. False) original_frames masks off sink = (sink', stop)"
  shows "(stop = None \<or> stop = Some IndexOutOfRange) \<and> length sink' \<le> length sink + 4 \<and>
         (length original_frames < off + 4 \<longrightarrow> stop = Some IndexOutOfRange \<and> sink' = sink)"
proof (cases "off + 4 \<le> length original_frames \<and> 4 \<le> length masks")
  case True
  then have "emit_loop render (\<lambda>n. False) original_frames masks off [0..<4] sink = (sink', stop)"
    using assms by (simp add: emit_sub_batch_def)
  from emit_loop_no_key [OF this] True show ?thesis by simp
next
  case False
  then show ?thesis using assms by (auto simp: emit_sub_batch_def)
qed

lemma drain_pending_no_key:
  assumes "drain_pending render (\<lambda>n. False) original_frames pending sink = (sink', stop)"
  shows "(stop = None \<or> stop = Some IndexOutOfRange) \<and>
         length sink' \<le> length sink + (if pending = None then 0 else 8) \<and>
         (pending \<noteq> None \<and> original_frames = [] \<longrightarrow> stop = Some IndexOutOfRange \<and> sink' = sink)"
proof (cases pending)
  case None
  then show ?thesis using assms by (simp add: drain_pending_def)
next
  case (Some p)
  obtain m1 m2 where p: "p = (m1, m2)" by (cases p)
  obtain s1 st1 where e1: "emit_sub_batch render (\<lambda>n. False) original_frames m1 0 sink = (s1, st1)"
    by (cases "emit_sub_batch render (\<lambda>n. False) original_frames m1 0 sink")
  note f1 = emit_sub_batch_no_key [OF e1]
  show ?thesis
  proof (cases st1)
    case None
    then have e2: "emit_sub_batch render (\<lambda>n. False) original_frames m2 4 s1 = (sink', stop)"
      using assms Some p e1 by (simp add: drain_pending_def)
    note f2 = emit_sub_batch_no_key [OF e2]
    show ?thesis using f1 f2 None Some by auto
  next
    case (Some st)
    then have "sink' = s1" "stop = Some st"
      using assms \<open>pending = Some p\<close> p e1 by (simp_all add: drain_pending_def)
    then show ?thesis using f1 Some \<open>pending = Some p\<close> by auto
  qed
qed

lemma video_loop_no_key:
  "video_loop segment render (\<lambda>n. False) video pending sink = (sink', status) \<Longrightarrow>
   (video \<noteq> [] \<or> pending \<noteq> None \<longrightarrow> status = IndexOutOfRange) \<and>
   length sink' \<le> length sink +
     (if pending = None then 8 * ((length video + 7) div 8 - 1) else 8 * ((length video + 7) div 8))"
proof (induction segment render "\<lambda>n :: nat. False" video pending sink
        arbitrary: sink' status rule: video_loop.induct)
  case (1 segment render pending sink)
  obtain s1 st1 where d: "drain_pending render (\<lambda>n. False) [] pending sink = (s1, st1)"
    by (cases "drain_pending render (\<lambda>n. False) [] pending sink")
  note f = drain_pending_no_key [OF d]
  show ?case
  proof (cases st1)
    case None
    then have "sink' = s1" "status = Completed" using "1.prems" d by simp_all
    then show ?thesis using f None by (cases pending) auto
  next
    case (Some st)
    then have "sink' = s1" "status = st" using "1.prems" d by simp_all
    then show ?thesis using f Some by (cases pending) auto
  qed
next
  case (2 segment render frame video pending sink)
  obtain orig video' where rb: "read_batch 8 (frame # video) [] = (orig, video')"
    by (cases "read_batch 8 (frame # video) []")
  note r8 = read_batch_8 [OF rb]
  obtain s1 st1 where d: "drain_pending render (\<lambda>n. False) orig pending sink = (s1, st1)"
    by (cases "drain_pending render (\<lambda>n. False) orig pending sink")
  note f = drain_pending_no_key [OF d]
  have batches: "1 \<le> (length (frame # video) + 7) div 8" by simp
  show ?case
  proof (cases st1)
    case None
    let ?p = "Some (segment (take 4 orig), segment (drop 4 orig))"
    have run: "video_loop segment render (\<lambda>n. False) video' ?p s1 = (sink', status)"
      using "2.prems" rb d None by simp
    from "2.hyps" [OF rb [symmetric] d [symmetric] None run]
    have IH: "status = IndexOutOfRange"
      "length sink' \<le> length s1 + 8 * ((length video' + 7) div 8)"
      by simp_all
    have "(length video' + 7) div 8 = (length (frame # video) + 7) div 8 - 1"
      using r8 by simp
    then show ?thesis using IH f batches by (cases pending) auto
  next
    case (Some st)
    then have "sink' = s1" "status = st" using "2.prems" rb d by simp_all
    then show ?thesis using f Some batches by (cases pending) auto
  qed
qed


text \<open>
  C3. For every video of \<open>N \<ge> 1\<close> frames, with no key pressed, \<open>glow_effect_video\<close>
  writes fewer than \<open>N\<close> frames and then, in the drain after the loop, indexes the
  \<open>original_frames\<close> vector that the last iteration has cleared. (Each iteration drains
  the futures of the previous batch against the batch it has just read, so a batch is
  never written with its own masks, and the frames of the first batch are written only
  if they are the padding of a later one.)
\<close>

theorem glow_effect_video_drops_frames:
  assumes "video \<noteq> []"
  shows "snd (glow_effect_video True True segment render (\<lambda>n. False) video) = IndexOutOfRange \<and>
         length (fst (glow_effect_video True True segment render (\<lambda>n. False) video)) < length video"
proof -
  obtain sink' status where
    run: "video_loop segment render (\<lambda>n. False) video None [] = (sink', status)"
    by (cases "video_loop segment render (\<lambda>n. False) video None []")
  from video_loop_no_key [OF run] assms
  have st: "status = IndexOutOfRange"
    and len: "length sink' \<le> 8 * ((length video + 7) div 8 - 1)"
    by simp_all
  have "0 < length video" using assms by simp
  then have "8 * ((length video + 7) div 8 - 1) < length video"
    by arith
  then show ?thesis
    using run st len by (simp add: glow_effect_video_def)
qed

theorem glow_effect_video_drops_frames_witness:
  "glow_effect_video True True (map (\<lambda>f. f + 100)) (\<lambda>f m. (f, m)) (\<lambda>n. False)
     [0, 1, 2, 3, 4, 5, 6, 7, 8 :: nat] =
     ([(8, 100), (8, 101), (8, 102), (8, 103), (8, 104), (8, 105), (8, 106), (8, 107)],
      IndexOutOfRange) \<and>
   snd (glow_effect_video True True (map (\<lambda>f. f + 100)) (\<lambda>f m. (f, m)) (\<lambda>n. False)
     [0, 1, 2, 3, 4, 5, 6, 7, 8 :: nat]) = IndexOutOfRange \<and>
   length (fst (glow_effect_video True True (map (\<lambda>f. f + 100)) (\<lambda>f m. (f, m)) (\<lambda>n. False)
     [0, 1, 2, 3, 4, 5, 6, 7, 8 :: nat])) < 9"
proof -
  have ne: "[0, 1, 2, 3, 4, 5, 6, 7, 8 :: nat] \<noteq> []" by simp
  have ev: "glow_effect_video True True (map (\<lambda>f. f + 100)) (\<lambda>f m. (f, m)) (\<lambda>n. False)
     [0, 1, 2, 3, 4, 5, 6, 7, 8 :: nat] =
     ([(8, 100), (8, 101), (8, 102), (8, 103), (8, 104), (8, 105), (8, 106), (8, 107)],
      IndexOutOfRange)"
    by code_simp
  from glow_effect_video_drops_frames [OF ne, of "map (\<lambda>f. f + 100)" "\<lambda>f m. (f, m)"]
  have "snd (glow_effect_video True True (map (\<lambda>f. f + 100)) (\<lambda>f m. (f, m)) (\<lambda>n. False)
           [0, 1, 2, 3, 4, 5, 6, 7, 8 :: nat]) = IndexOutOfRange"
    and "length (fst (glow_effect_video True True (map (\<lambda>f. f + 100)) (\<lambda>f m. (f, m)) (\<lambda>n. False)
           [0, 1, 2, 3, 4, 5, 6, 7, 8 :: nat])) < 9"
    by simp_all
  with ev show ?thesis by blast
qed

section \<open>Properties of the graph post-processing\<close>

lemma try_capture_checked_exits:
  assumes "begin_capture env \<noteq> cudaSuccess \<or> end_capture env \<noteq> cudaSuccess \<or>
           instantiate env \<noteq> cudaSuccess"
  shows "try_capture_checked ExitsProcess env = None"
  using assms by (auto simp: try_capture_checked_def checkCudaErrors_def)

lemma try_capture_checked_thrown:
  assumes "begin_capture env \<noteq> cudaSuccess \<or> end_capture env \<noteq> cudaSuccess \<or>
           instantiate env \<noteq> cudaSuccess"
  shows "try_capture_checked ThrowsException env = Some False"
  using assms by (auto simp: try_capture_checked_def checkCudaErrors_def)

lemma try_capture_checked_success:
  assumes "begin_capture env = cudaSuccess" "end_capture env = cudaSuccess"
    "instantiate env = cudaSuccess"
  shows "try_capture_checked policy env = Some True"
  using assms by (simp add: try_capture_checked_def checkCudaErrors_def)

lemma launchArgmaxKernel_result:
  "argmax_outputs (launchArgmaxKernel argmax src dst dev) dst = argmax (outputs dev src)"
  by (simp add: launchArgmaxKernel_def)

text \<open>
  If \<open>checkCudaErrors\<close> threw, the fallback of the graph variant would give the eager
  mask, the same that a captured graph gives.
\<close>

lemma graph_worker_fallback_if_thrown:
  assumes "begin_capture env \<noteq> cudaSuccess \<or> end_capture env \<noteq> cudaSuccess \<or>
           instantiate env \<noteq> cudaSuccess"
  shows "graph_worker_postprocess ThrowsException env True True argmax d_output d_argmax_output dev
         = Mask (argmax (outputs dev d_output))"
  by (simp add: graph_worker_postprocess_def try_capture_checked_thrown [OF assms]
        launchArgmaxKernel_result)

lemma graph_worker_replay:
  assumes "begin_capture env = cudaSuccess" "end_capture env = cudaSuccess"
    "instantiate env = cudaSuccess" "graph_launch env = cudaSuccess"
  shows "graph_worker_postprocess policy env True True argmax d_output d_argmax_output dev
         = Mask (argmax (outputs dev d_output))"
  by (simp add: graph_worker_postprocess_def try_capture_checked_success [OF assms(1,2,3)]
        assms(4) checkCudaErrors_def launchArgmaxKernel_result)

text \<open>
  In the single-batch variant a failed capture is caught, and the image gets the eager
  mask; so does the image on which the capture succeeds.
\<close>

lemma single_batch_fallback:
  assumes "\<not> try_capture_thrown env"
  shows "single_batch_postprocess env argmax None d_output d_argmax_output dev =
         (argmax (outputs dev d_output), None)"
  using assms by (simp add: single_batch_postprocess_def launchArgmaxKernel_result)

lemma single_batch_capturing_image:
  assumes "try_capture_thrown env"
  shows "single_batch_postprocess env argmax None d_output d_argmax_output dev =
         (argmax (outputs dev d_output), Some (d_output, d_argmax_output))"
  using assms by (simp add: single_batch_postprocess_def launchArgmaxKernel_result)

text \<open>
  On a later image of the same worker the graph runs the recorded node, on the
  addresses of the image it was captured on; the mask copied back is the content of this
  image's buffer, which the node has written only if the allocator returned the same
  address again.
\<close>

lemma single_batch_replay:
  assumes "graph_launch env = cudaSuccess"
  shows "single_batch_postprocess env argmax (Some (src, dst)) d_output d_argmax_output dev =
         (if dst = d_argmax_output then argmax (outputs dev src)
          else argmax_outputs dev d_argmax_output, Some (src, dst))"
  using assms by (simp add: single_batch_postprocess_def launchArgmaxKernel_def)

text \<open>
  C8. In \<open>measure_segmentation_trt_performance_mul_concurrent_graph\<close> the capture calls
  are wrapped in \<open>checkCudaErrors\<close>; with the cuda-samples helper, which exits, a
  failure of any of the three ends the process: the \<open>catch\<close> block and the eager
  fallback behind it are never reached and no mask is produced.
\<close>

theorem graph_capture_failure_exits:
  assumes "begin_capture env \<noteq> cudaSuccess \<or> end_capture env \<noteq> cudaSuccess \<or>
           instantiate env \<noteq> cudaSuccess"
  shows "graph_worker_postprocess ExitsProcess env True enqueue_ok argmax d_output d_argmax_output dev
         = ProcessExited"
  by (simp add: graph_worker_postprocess_def try_capture_checked_exits [OF assms])

theorem graph_capture_failure_exits_witness:
  "graph_worker_postprocess ExitsProcess
     \<lparr>begin_capture = cudaErrorOther, end_capture = cudaSuccess, instantiate = cudaSuccess,
      graph_launch = cudaSuccess\<rparr>
     True True (\<lambda>out :: nat. out + 1) 0 1 \<lparr>outputs = \<lambda>a. 41, argmax_outputs = \<lambda>a. 0 :: nat\<rparr>
   = ProcessExited \<and>
   graph_worker_postprocess ExitsProcess
     \<lparr>begin_capture = cudaSuccess, end_capture = cudaSuccess, instantiate = cudaSuccess,
      graph_launch = cudaSuccess\<rparr>
     True True (\<lambda>out :: nat. out + 1) 0 1 \<lparr>outputs = \<lambda>a. 41, argmax_outputs = \<lambda>a. 0 :: nat\<rparr>
   = Mask 42"
proof -
  have "begin_capture \<lparr>begin_capture = cudaErrorOther, end_capture = cudaSuccess,
          instantiate = cudaSuccess, graph_launch = cudaSuccess\<rparr> \<noteq> cudaSuccess \<or>
        end_capture \<lparr>begin_capture = cudaErrorOther, end_capture = cudaSuccess,
          instantiate = cudaSuccess, graph_launch = cudaSuccess\<rparr> \<noteq> cudaSuccess \<or>
        instantiate \<lparr>begin_capture = cudaErrorOther, end_capture = cudaSuccess,
          instantiate = cudaSuccess, graph_launch = cudaSuccess\<rparr> \<noteq> cudaSuccess"
    by simp
  from graph_capture_failure_exits [OF this]
  have "graph_worker_postprocess ExitsProcess
     \<lparr>begin_capture = cudaErrorOther, end_capture = cudaSuccess, instantiate = cudaSuccess,
      graph_launch = cudaSuccess\<rparr>
     True True (\<lambda>out :: nat. out + 1) 0 1 \<lparr>outputs = \<lambda>a. 41, argmax_outputs = \<lambda>a. 0 :: nat\<rparr>
   = ProcessExited" .
  moreover have "graph_worker_postprocess ExitsProcess
     \<lparr>begin_capture = cudaSuccess, end_capture = cudaSuccess, instantiate = cudaSuccess,
      graph_launch = cudaSuccess\<rparr>
     True True (\<lambda>out :: nat. out + 1) 0 1 \<lparr>outputs = \<lambda>a. 41, argmax_outputs = \<lambda>a. 0 :: nat\<rparr>
   = Mask 42"
    by (simp add: graph_worker_replay)
  ultimately show ?thesis by simp
qed

end
